theory Spec2Isabelle
  imports Main "HOL-Library.Word"
begin

section \<open>Storage layout (evm\_compiler.py, class StorageLayout)\<close>

text \<open>
  The dataclass has a dictionary from variable names to slot numbers and the next free
  slot. Python integers are unbounded, so slots are \<open>int\<close>.
\<close>

record StorageLayout =
  slots :: "string \<rightharpoonup> int"
  next_slot :: int

text \<open>\<^verbatim>\<open>StorageLayout(slots={})\<close>, as the generator's constructor builds it.\<close>

definition new_layout :: StorageLayout where
  "new_layout = \<lparr>slots = Map.empty, next_slot = 0\<rparr>"

text \<open>
  \<^verbatim>\<open>allocate\<close> mutates the layout and returns the slot; the model returns both.
\<close>

definition allocate :: "string \<Rightarrow> StorageLayout \<Rightarrow> int \<times> StorageLayout" where
  "allocate var_name l =
     (case slots l var_name of
        None \<Rightarrow>
          (next_slot l,
           l\<lparr>slots := (slots l)(var_name \<mapsto> next_slot l), next_slot := next_slot l + 1\<rparr>)
      | Some s \<Rightarrow> (s, l))"

text \<open>A sequence of allocations, in order, keeping only the layout.\<close>

fun allocate_all :: "string list \<Rightarrow> StorageLayout \<Rightarrow> StorageLayout" where
  "allocate_all [] l = l"
| "allocate_all (v # vs) l = allocate_all vs (snd (allocate v l))"

text \<open>
  The names of a sequence in the order of their first occurrence, after the names
  \<open>acc\<close> seen before it.
\<close>

fun first_seen :: "string list \<Rightarrow> string list \<Rightarrow> string list" where
  "first_seen acc [] = acc"
| "first_seen acc (v # vs) =
     (if v \<in> set acc then first_seen acc vs else first_seen (acc @ [v]) vs)"

text \<open>
  The invariant of the layouts reachable from the empty one: the names seen so far, in
  first-seen order, are exactly the keys, the \<open>i\<close>-th of them sits in slot \<open>i\<close>, and
  the next free slot is their number.
\<close>

definition layout_inv :: "string list \<Rightarrow> StorageLayout \<Rightarrow> bool" where
  "layout_inv acc l \<longleftrightarrow>
     distinct acc \<and> next_slot l = int (length acc) \<and> dom (slots l) = set acc \<and>
     (\<forall>i < length acc. slots l (acc ! i) = Some (int i))"

section \<open>Bytes and Python's integer conversions\<close>

type_synonym byte = "8 word"

text \<open>
  The exceptions the generator can raise: \<^verbatim>\<open>int.to_bytes\<close> raises OverflowError on a
  negative value and on one that does not fit the width; \<^verbatim>\<open>expr.ops[0]\<close> raises
  IndexError on an empty list.
\<close>

datatype error = OverflowError | IndexError

definition bind_err :: "'e + 'a \<Rightarrow> ('a \<Rightarrow> 'e + 'b) \<Rightarrow> 'e + 'b" where
  "bind_err m f = (case m of Inl e \<Rightarrow> Inl e | Inr x \<Rightarrow> f x)"

lemma bind_err_Inl [simp]: "bind_err (Inl e) f = Inl e"
  by (simp add: bind_err_def)

lemma bind_err_Inr [simp]: "bind_err (Inr x) f = f x"
  by (simp add: bind_err_def)

lemma bind_err_cong [fundef_cong]:
  "m = m' \<Longrightarrow> (\<And>x. m' = Inr x \<Longrightarrow> f x = f' x) \<Longrightarrow> bind_err m f = bind_err m' f'"
  by (cases m') (simp_all add: bind_err_def)

text \<open>\<^verbatim>\<open>int.bit_length()\<close>: the number of bits of the absolute value.\<close>

fun bit_length :: "nat \<Rightarrow> nat" where
  "bit_length n = (if n = 0 then 0 else Suc (bit_length (n div 2)))"

declare bit_length.simps [simp del]

definition int_bit_length :: "int \<Rightarrow> nat" where
  "int_bit_length v = bit_length (nat \<bar>v\<bar>)"

text \<open>The \<open>n\<close> low-order base-256 digits of \<open>v\<close>, most significant first.\<close>

fun be_bytes :: "nat \<Rightarrow> nat \<Rightarrow> byte list" where
  "be_bytes 0 v = []"
| "be_bytes (Suc n) v = be_bytes n (v div 256) @ [of_nat (v mod 256)]"

text \<open>\<^verbatim>\<open>value.to_bytes(size, 'big')\<close> (unsigned).\<close>

definition to_bytes :: "int \<Rightarrow> nat \<Rightarrow> error + byte list" where
  "to_bytes v size' =
     (if v < 0 \<or> 256 ^ size' \<le> v then Inl OverflowError else Inr (be_bytes size' (nat v)))"

text \<open>\<^verbatim>\<open>int.from_bytes(data, 'big')\<close>.\<close>

definition from_bytes :: "byte list \<Rightarrow> nat" where
  "from_bytes bs = foldl (\<lambda>a b. a * 256 + unat b) 0 bs"

text \<open>\<^verbatim>\<open>xs[-n:]\<close>: the last \<open>n\<close> elements, and the whole sequence when \<open>n = 0\<close>.\<close>

definition last_slice :: "nat \<Rightarrow> 'a list \<Rightarrow> 'a list" where
  "last_slice n xs = (if n = 0 then xs else drop (length xs - n) xs)"

text \<open>
  \<^verbatim>\<open>xs[i:j] = ys\<close> for \<open>0 \<le> i \<le> j\<close>: Python clamps both bounds to the length, so a
  slice past the end appends.
\<close>

definition slice_assign :: "'a list \<Rightarrow> nat \<Rightarrow> nat \<Rightarrow> 'a list \<Rightarrow> 'a list" where
  "slice_assign xs i j ys = take i xs @ ys @ drop j xs"

text \<open>
  keccak-256 comes from an external library (Crypto.Hash); every function that hashes
  takes it as the parameter \<open>H\<close>. Strings are byte strings, so \<^verbatim>\<open>encode('utf-8')\<close>
  maps each character to its code.
\<close>

type_synonym hash = "byte list \<Rightarrow> byte list"

definition encode_utf8 :: "string \<Rightarrow> byte list" where
  "encode_utf8 s = map (\<lambda>c. of_nat (of_char c)) s"

definition function_selector :: "hash \<Rightarrow> string \<Rightarrow> byte list" where
  "function_selector H signature = take 4 (H (encode_utf8 signature))"

text \<open>\<^verbatim>\<open>calculate_mapping_slot\<close>: the key is an int, padded to 32 bytes, or bytes taken as they are.\<close>

datatype int_or_bytes = IntV int | BytesV "byte list"

definition calculate_mapping_slot :: "hash \<Rightarrow> int_or_bytes \<Rightarrow> int \<Rightarrow> error + nat" where
  "calculate_mapping_slot H key base_slot =
     bind_err (case key of IntV k \<Rightarrow> to_bytes k 32 | BytesV b \<Rightarrow> Inr b) (\<lambda>key_bytes.
     bind_err (to_bytes base_slot 32) (\<lambda>slot_bytes.
     Inr (from_bytes (H (key_bytes @ slot_bytes)))))"

section \<open>The EVM opcodes the generator emits (class EVMOpcode)\<close>

abbreviation (input) EVMOpcode_STOP :: byte where "EVMOpcode_STOP \<equiv> 0x00"
abbreviation (input) EVMOpcode_ADD :: byte where "EVMOpcode_ADD \<equiv> 0x01"
abbreviation (input) EVMOpcode_MUL :: byte where "EVMOpcode_MUL \<equiv> 0x02"
abbreviation (input) EVMOpcode_SUB :: byte where "EVMOpcode_SUB \<equiv> 0x03"
abbreviation (input) EVMOpcode_DIV :: byte where "EVMOpcode_DIV \<equiv> 0x04"
abbreviation (input) EVMOpcode_MOD :: byte where "EVMOpcode_MOD \<equiv> 0x06"
abbreviation (input) EVMOpcode_LT :: byte where "EVMOpcode_LT \<equiv> 0x10"
abbreviation (input) EVMOpcode_GT :: byte where "EVMOpcode_GT \<equiv> 0x11"
abbreviation (input) EVMOpcode_EQ :: byte where "EVMOpcode_EQ \<equiv> 0x14"
abbreviation (input) EVMOpcode_ISZERO :: byte where "EVMOpcode_ISZERO \<equiv> 0x15"
abbreviation (input) EVMOpcode_SHR :: byte where "EVMOpcode_SHR \<equiv> 0x1c"
abbreviation (input) EVMOpcode_SHA3 :: byte where "EVMOpcode_SHA3 \<equiv> 0x20"
abbreviation (input) EVMOpcode_CALLDATALOAD :: byte where "EVMOpcode_CALLDATALOAD \<equiv> 0x35"
abbreviation (input) EVMOpcode_CALLDATASIZE :: byte where "EVMOpcode_CALLDATASIZE \<equiv> 0x36"
abbreviation (input) EVMOpcode_CODECOPY :: byte where "EVMOpcode_CODECOPY \<equiv> 0x39"
abbreviation (input) EVMOpcode_MSTORE :: byte where "EVMOpcode_MSTORE \<equiv> 0x52"
abbreviation (input) EVMOpcode_SLOAD :: byte where "EVMOpcode_SLOAD \<equiv> 0x54"
abbreviation (input) EVMOpcode_SSTORE :: byte where "EVMOpcode_SSTORE \<equiv> 0x55"
abbreviation (input) EVMOpcode_JUMP :: byte where "EVMOpcode_JUMP \<equiv> 0x56"
abbreviation (input) EVMOpcode_JUMPI :: byte where "EVMOpcode_JUMPI \<equiv> 0x57"
abbreviation (input) EVMOpcode_JUMPDEST :: byte where "EVMOpcode_JUMPDEST \<equiv> 0x5b"
abbreviation (input) EVMOpcode_PUSH1 :: nat where "EVMOpcode_PUSH1 \<equiv> 0x60"
abbreviation (input) EVMOpcode_DUP1 :: byte where "EVMOpcode_DUP1 \<equiv> 0x80"
abbreviation (input) EVMOpcode_DUP2 :: byte where "EVMOpcode_DUP2 \<equiv> 0x81"
abbreviation (input) EVMOpcode_SWAP1 :: byte where "EVMOpcode_SWAP1 \<equiv> 0x90"
abbreviation (input) EVMOpcode_RETURN :: byte where "EVMOpcode_RETURN \<equiv> 0xf3"
abbreviation (input) EVMOpcode_REVERT :: byte where "EVMOpcode_REVERT \<equiv> 0xfd"

section \<open>The contract model the generator consumes\<close>

text \<open>
  The generator walks Python \<^verbatim>\<open>ast\<close> nodes. The node kinds it tests for are
  constructors; every other kind is \<open>OtherExpr\<close>, \<open>OtherStmt\<close>, \<open>OtherOperator\<close>
  or \<open>OtherCmpop\<close>. A constant is an int (Python's \<^verbatim>\<open>bool\<close> is an int too) or
  something else.
\<close>

datatype const_value = IntConst int | OtherConst

datatype operator = Add | Sub | Mult | Div | Mod | OtherOperator

datatype cmpop = Eq | Lt | Gt | LtE | GtE | OtherCmpop

datatype expr =
    Constant const_value
  | Num int
  | Name string
  | Attribute expr string
  | Subscript expr expr
  | BinOp expr operator expr
  | Compare expr "cmpop list" "expr list"
  | OtherExpr

datatype stmt =
    Return "expr option"
  | Assign "expr list" expr
  | IfStmt expr "stmt list" "stmt list"
  | ExprStmt expr
  | OtherStmt

text \<open>
  The per-function dictionary, with the keys the generator reads. Dictionaries that the
  generator iterates are association lists in insertion order, with distinct keys.
\<close>

record func_info =
  is_public :: bool
  is_view :: bool
  has_return :: bool
  args :: "string list"
  param_types :: "string list"
  return_type :: string
  body :: "stmt list"

record ContractState =
  variables :: "(string \<times> int) list"
  functions' :: "(string \<times> func_info) list"
  events :: "(string \<times> string list) list"
  initial_values :: "(string \<times> const_value) list"
  variable_types :: "(string \<times> string) list"

section \<open>The bytecode generator (class EnhancedBytecodeGenerator)\<close>

record generator =
  init_code :: "byte list"
  runtime_code :: "byte list"
  current_mode :: string
  current_state :: "ContractState option"
  gas_used :: nat
  memory_offset :: nat

definition new_generator :: generator where
  "new_generator =
     \<lparr>init_code = [], runtime_code = [], current_mode = ''init'', current_state = None,
      gas_used = 0, memory_offset = 0\<rparr>"

definition emit :: "byte \<Rightarrow> generator \<Rightarrow> generator" where
  "emit opcode g =
     (if current_mode g = ''init'' then g\<lparr>init_code := init_code g @ [opcode]\<rparr>
      else g\<lparr>runtime_code := runtime_code g @ [opcode]\<rparr>)"

definition emit_push :: "int_or_bytes \<Rightarrow> nat option \<Rightarrow> generator \<Rightarrow> error + generator" where
  "emit_push value' size' g =
     bind_err
       (case value' of
          IntV v \<Rightarrow>
            (let size1 = (case size' of
                            None \<Rightarrow> max 1 ((int_bit_length v + 7) div 8)
                          | Some s \<Rightarrow> s)
             in bind_err (to_bytes v size1) (\<lambda>value_bytes. Inr (value_bytes, size1)))
        | BytesV b \<Rightarrow> Inr (b, length b))
       (\<lambda>(value_bytes, size1).
          let size2 = min size1 32;
              push_opcode = of_nat (EVMOpcode_PUSH1 + size2 - 1);
              g' = (if current_mode g = ''init''
                    then g\<lparr>init_code := init_code g @ [push_opcode] @ last_slice size2 value_bytes\<rparr>
                    else g\<lparr>runtime_code :=
                            runtime_code g @ [push_opcode] @ last_slice size2 value_bytes\<rparr>)
          in Inr (g'\<lparr>gas_used := gas_used g' + 3\<rparr>))"

definition get_offset :: "generator \<Rightarrow> nat" where
  "get_offset g =
     (if current_mode g = ''runtime'' then length (runtime_code g) else length (init_code g))"

definition set_mode :: "string \<Rightarrow> generator \<Rightarrow> generator" where
  "set_mode mode g = g\<lparr>current_mode := mode\<rparr>"

definition backpatch :: "nat \<Rightarrow> int \<Rightarrow> nat \<Rightarrow> generator \<Rightarrow> error + generator" where
  "backpatch offset target size' g =
     bind_err (to_bytes target size') (\<lambda>target_bytes.
       Inr (if current_mode g = ''init''
            then g\<lparr>init_code := slice_assign (init_code g) offset (offset + size') target_bytes\<rparr>
            else g\<lparr>runtime_code :=
                    slice_assign (runtime_code g) offset (offset + size') target_bytes\<rparr>))"

definition generate_abi_encoded_return :: "generator \<Rightarrow> error + generator" where
  "generate_abi_encoded_return g =
     bind_err (emit_push (IntV 0) None g) (\<lambda>g.
     bind_err (emit_push (IntV 32) None (emit EVMOpcode_MSTORE g)) (\<lambda>g.
     bind_err (emit_push (IntV 0) None g) (\<lambda>g.
     Inr (emit EVMOpcode_RETURN g))))"

subsection \<open>Expressions and mapping slots\<close>

text \<open>
  \<^verbatim>\<open>isinstance(e, ast.Name) and e.id == 'self'\<close>, and the attribute name of
  \<^verbatim>\<open>self.name\<close> (the test the generator makes on the value of a subscript).
\<close>

fun is_self :: "expr \<Rightarrow> bool" where
  "is_self (Name ident) = (ident = ''self'')"
| "is_self _ = False"

fun self_attr :: "expr \<Rightarrow> string option" where
  "self_attr (Attribute v attr) = (if is_self v then Some attr else None)"
| "self_attr _ = None"

fun compile_expression ::
    "(string \<rightharpoonup> nat) \<Rightarrow> ContractState \<Rightarrow> expr \<Rightarrow> generator \<Rightarrow> error + generator"
  and compile_mapping_slot ::
    "(string \<rightharpoonup> nat) \<Rightarrow> ContractState \<Rightarrow> expr \<Rightarrow> int \<Rightarrow> generator \<Rightarrow> error + generator"
where
  "compile_expression arg_map state (Constant c) g =
     emit_push (IntV (case c of IntConst v \<Rightarrow> v | OtherConst \<Rightarrow> 0)) None g"
| "compile_expression arg_map state (Num n) g = emit_push (IntV n) None g"
| "compile_expression arg_map state (Name ident) g =
     (case arg_map ident of
        Some arg_index \<Rightarrow>
          bind_err (emit_push (IntV (int (4 + arg_index * 32))) None g) (\<lambda>g.
          Inr (emit EVMOpcode_CALLDATALOAD g))
      | None \<Rightarrow> emit_push (IntV 0) None g)"
| "compile_expression arg_map state (Attribute v attr) g =
     (if is_self v then
        (case map_of (variables state) attr of
           Some slot \<Rightarrow>
             bind_err (emit_push (IntV slot) None g) (\<lambda>g. Inr (emit EVMOpcode_SLOAD g))
         | None \<Rightarrow> emit_push (IntV 0) None g)
      else emit_push (IntV 0) None g)"
| "compile_expression arg_map state (Subscript v slice') g =
     (case self_attr v of
        Some mapping_name \<Rightarrow>
          (case map_of (variables state) mapping_name of
             Some base_slot \<Rightarrow>
               bind_err (compile_mapping_slot arg_map state slice' base_slot g) (\<lambda>g.
               Inr (emit EVMOpcode_SLOAD g))
           | None \<Rightarrow> emit_push (IntV 0) None g)
      | None \<Rightarrow> emit_push (IntV 0) None g)"
| "compile_expression arg_map state (BinOp left op right) g =
     bind_err (compile_expression arg_map state left g) (\<lambda>g.
     bind_err (compile_expression arg_map state right g) (\<lambda>g.
     Inr (case op of
            Add \<Rightarrow> emit EVMOpcode_ADD g
          | Sub \<Rightarrow> emit EVMOpcode_SUB g
          | Mult \<Rightarrow> emit EVMOpcode_MUL g
          | Div \<Rightarrow> emit EVMOpcode_DIV g
          | Mod \<Rightarrow> emit EVMOpcode_MOD g
          | OtherOperator \<Rightarrow> g)))"
| "compile_expression arg_map state (Compare left ops comparators) g =
     bind_err (compile_expression arg_map state left g) (\<lambda>g.
     case comparators of
       [] \<Rightarrow> Inr g
     | c # cs \<Rightarrow>
         bind_err (compile_expression arg_map state c g) (\<lambda>g.
         case ops of
           [] \<Rightarrow> Inl IndexError
         | op # rest_ops \<Rightarrow>
             Inr (case op of
                    Eq \<Rightarrow> emit EVMOpcode_EQ g
                  | Lt \<Rightarrow> emit EVMOpcode_LT (emit EVMOpcode_SWAP1 g)
                  | Gt \<Rightarrow> emit EVMOpcode_GT (emit EVMOpcode_SWAP1 g)
                  | LtE \<Rightarrow> emit EVMOpcode_ISZERO (emit EVMOpcode_GT (emit EVMOpcode_SWAP1 g))
                  | GtE \<Rightarrow> emit EVMOpcode_ISZERO (emit EVMOpcode_LT (emit EVMOpcode_SWAP1 g))
                  | OtherCmpop \<Rightarrow> g)))"
| "compile_expression arg_map state OtherExpr g = emit_push (IntV 0) None g"
| "compile_mapping_slot arg_map state key_expr base_slot g =
     bind_err (compile_expression arg_map state key_expr g) (\<lambda>g.
     bind_err (emit_push (IntV 0) None g) (\<lambda>g.
     bind_err (emit_push (IntV base_slot) None (emit EVMOpcode_MSTORE g)) (\<lambda>g.
     bind_err (emit_push (IntV 32) None g) (\<lambda>g.
     bind_err (emit_push (IntV 64) None (emit EVMOpcode_MSTORE g)) (\<lambda>g.
     bind_err (emit_push (IntV 0) None g) (\<lambda>g.
     Inr (emit EVMOpcode_SHA3 g)))))))"

subsection \<open>Statements\<close>

fun is_Return :: "stmt \<Rightarrow> bool" where
  "is_Return (Return v) = True"
| "is_Return _ = False"

function (sequential) compile_statement ::
    "(string \<rightharpoonup> nat) \<Rightarrow> ContractState \<Rightarrow> stmt \<Rightarrow> generator \<Rightarrow> error + generator"
  and compile_statements ::
    "(string \<rightharpoonup> nat) \<Rightarrow> ContractState \<Rightarrow> stmt list \<Rightarrow> generator \<Rightarrow> error + generator"
  and compile_if_statement ::
    "(string \<rightharpoonup> nat) \<Rightarrow> ContractState \<Rightarrow> expr \<Rightarrow> stmt list \<Rightarrow> stmt list \<Rightarrow> generator
       \<Rightarrow> error + generator"
where
  "compile_statement arg_map state (Return v) g =
     (case v of
        Some e \<Rightarrow>
          bind_err (compile_expression arg_map state e g) generate_abi_encoded_return
      | None \<Rightarrow>
          bind_err (emit_push (IntV 0) None g) (\<lambda>g.
          bind_err (emit_push (IntV 0) None g) (\<lambda>g.
          Inr (emit EVMOpcode_RETURN g))))"
| "compile_statement arg_map state (Assign targets v) g =
     (case targets of
        [target] \<Rightarrow>
          (case target of
             Attribute obj var_name \<Rightarrow>
               (if is_self obj then
                  (case map_of (variables state) var_name of
                     Some slot \<Rightarrow>
                       bind_err (compile_expression arg_map state v g) (\<lambda>g.
                       bind_err (emit_push (IntV slot) None g) (\<lambda>g.
                       Inr (emit EVMOpcode_SSTORE g)))
                   | None \<Rightarrow> Inr g)
                else Inr g)
           | Subscript obj slice' \<Rightarrow>
               (case self_attr obj of
                  Some mapping_name \<Rightarrow>
                    (case map_of (variables state) mapping_name of
                       Some base_slot \<Rightarrow>
                         bind_err (compile_expression arg_map state v g) (\<lambda>g.
                         bind_err (compile_mapping_slot arg_map state slice' base_slot g) (\<lambda>g.
                         Inr (emit EVMOpcode_SSTORE g)))
                     | None \<Rightarrow> Inr g)
                | None \<Rightarrow> Inr g)
           | _ \<Rightarrow> Inr g)
      | _ \<Rightarrow> Inr g)"
| "compile_statement arg_map state (IfStmt test then_body orelse) g =
     compile_if_statement arg_map state test then_body orelse g"
| "compile_statement arg_map state (ExprStmt e) g = Inr g"
| "compile_statement arg_map state OtherStmt g = Inr g"
| "compile_statements arg_map state [] g = Inr g"
| "compile_statements arg_map state (s # ss) g =
     bind_err (compile_statement arg_map state s g) (compile_statements arg_map state ss)"
| "compile_if_statement arg_map state test then_body orelse g =
     bind_err (compile_expression arg_map state test g) (\<lambda>g.
     let g = emit EVMOpcode_ISZERO g;
         else_placeholder = get_offset g + 1
     in
     bind_err (emit_push (IntV 0xDEAD) (Some 2) g) (\<lambda>g.
     bind_err (compile_statements arg_map state then_body (emit EVMOpcode_JUMPI g)) (\<lambda>g.
     let end_placeholder = get_offset g + 1 in
     bind_err (emit_push (IntV 0xBEEF) (Some 2) g) (\<lambda>g.
     let g = emit EVMOpcode_JUMP g;
         else_offset = get_offset g
     in
     bind_err (compile_statements arg_map state orelse (emit EVMOpcode_JUMPDEST g)) (\<lambda>g.
     let end_offset = get_offset g in
     bind_err (backpatch else_placeholder (int else_offset) 2 (emit EVMOpcode_JUMPDEST g)) (\<lambda>g.
     backpatch end_placeholder (int end_offset) 2 g))))))"
  by pat_completeness auto

termination
  by (relation "measure (\<lambda>x. case x of
        Inl (am, st, s, g) \<Rightarrow> 3 * size s + 2
      | Inr (Inl (am, st, ss, g)) \<Rightarrow> 3 * size_list size ss + 1
      | Inr (Inr (am, st, t, b, e, g)) \<Rightarrow> 3 * (size_list size b + size_list size e) + 4)")
    auto

subsection \<open>Dispatcher, function bodies, constructor and assembly\<close>

text \<open>\<^verbatim>\<open>sep.join(xs)\<close>.\<close>

fun join_str :: "string \<Rightarrow> string list \<Rightarrow> string" where
  "join_str sep [] = []"
| "join_str sep [x] = x"
| "join_str sep (x # y # ys) = x @ sep @ join_str sep (y # ys)"

text \<open>The loop of the dispatcher over \<^verbatim>\<open>functions.items()\<close>.\<close>

fun dispatcher_loop ::
    "hash \<Rightarrow> (string \<times> func_info) list \<Rightarrow> (string \<rightharpoonup> nat) \<Rightarrow> generator
       \<Rightarrow> error + ((string \<rightharpoonup> nat) \<times> generator)" where
  "dispatcher_loop H [] placeholders g = Inr (placeholders, g)"
| "dispatcher_loop H ((func_name, info) # rest) placeholders g =
     (if \<not> (is_public info \<or> is_view info) then dispatcher_loop H rest placeholders g
      else
        let signature = func_name @ ''('' @ join_str '','' (param_types info) @ '')'';
            selector = function_selector H signature;
            selector_int = from_bytes selector
        in
        bind_err (emit_push (IntV (int selector_int)) (Some 4) (emit EVMOpcode_DUP1 g)) (\<lambda>g.
        let g = emit EVMOpcode_EQ g;
            placeholder_offset = get_offset g + 1
        in
        bind_err (emit_push (IntV 0xDEAD) (Some 2) g) (\<lambda>g.
        dispatcher_loop H rest (placeholders(func_name \<mapsto> placeholder_offset))
          (emit EVMOpcode_JUMPI g))))"

definition generate_function_dispatcher ::
    "hash \<Rightarrow> (string \<times> func_info) list \<Rightarrow> generator
       \<Rightarrow> error + ((string \<rightharpoonup> nat) \<times> generator)" where
  "generate_function_dispatcher H funcs g =
     bind_err (emit_push (IntV 4) None g) (\<lambda>g.
     let g = emit EVMOpcode_LT (emit EVMOpcode_CALLDATASIZE g);
         revert_offset = get_offset g + 3
     in
     bind_err (emit_push (IntV 0xFFFF) (Some 2) g) (\<lambda>g.
     bind_err (emit_push (IntV 0) None (emit EVMOpcode_JUMPI g)) (\<lambda>g.
     bind_err (emit_push (IntV 224) None (emit EVMOpcode_CALLDATALOAD g)) (\<lambda>g.
     bind_err (dispatcher_loop H funcs Map.empty (emit EVMOpcode_SHR g)) (\<lambda>(placeholders, g).
     let revert_start = get_offset g in
     bind_err (emit_push (IntV 0) None (emit EVMOpcode_JUMPDEST g)) (\<lambda>g.
     bind_err (emit_push (IntV 0) None g) (\<lambda>g.
     bind_err (backpatch revert_offset (int revert_start) 2 (emit EVMOpcode_REVERT g)) (\<lambda>g.
     Inr (placeholders, g)))))))))"

text \<open>\<^verbatim>\<open>{arg: i for i, arg in enumerate(args)}\<close>: a later duplicate wins.\<close>

definition make_arg_map :: "string list \<Rightarrow> (string \<rightharpoonup> nat)" where
  "make_arg_map xs = fold (\<lambda>(i, a) m. m(a \<mapsto> i)) (enumerate 0 xs) Map.empty"

definition generate_function_body ::
    "string \<Rightarrow> func_info \<Rightarrow> ContractState \<Rightarrow> generator \<Rightarrow> error + generator" where
  "generate_function_body func_name info state g =
     bind_err (compile_statements (make_arg_map (args info)) state (body info) g) (\<lambda>g.
     if is_view info \<or> has_return info then
       (if body info = [] \<or> \<not> is_Return (last (body info))
        then bind_err (emit_push (IntV 0) None g) generate_abi_encoded_return
        else Inr g)
     else
       bind_err (emit_push (IntV 0) None g) (\<lambda>g.
       bind_err (emit_push (IntV 0) None g) (\<lambda>g.
       Inr (emit EVMOpcode_RETURN g))))"

text \<open>The loop of the constructor over \<^verbatim>\<open>state.variables.items()\<close>.\<close>

fun constructor_loop ::
    "ContractState \<Rightarrow> (string \<times> int) list \<Rightarrow> generator \<Rightarrow> error + generator" where
  "constructor_loop state [] g = Inr g"
| "constructor_loop state ((var_name, slot) # rest) g =
     (case (case map_of (initial_values state) var_name of
              None \<Rightarrow> IntConst 0
            | Some v \<Rightarrow> v) of
        IntConst initial_value \<Rightarrow>
          bind_err (emit_push (IntV initial_value) None g) (\<lambda>g.
          bind_err (emit_push (IntV slot) None g) (\<lambda>g.
          constructor_loop state rest (emit EVMOpcode_SSTORE g)))
      | OtherConst \<Rightarrow> constructor_loop state rest g)"

definition generate_constructor ::
    "ContractState \<Rightarrow> nat \<Rightarrow> generator \<Rightarrow> error + generator" where
  "generate_constructor state runtime_size g =
     bind_err (constructor_loop state (variables state) g) (\<lambda>g.
     let runtime_offset = length (init_code g) + 13 in
     bind_err (emit_push (IntV (int runtime_size)) (Some 2) g) (\<lambda>g.
     bind_err (emit_push (IntV (int runtime_offset)) (Some 2) g) (\<lambda>g.
     bind_err (emit_push (IntV 0) None (emit EVMOpcode_DUP2 g)) (\<lambda>g.
     bind_err (emit_push (IntV 0) None (emit EVMOpcode_CODECOPY g)) (\<lambda>g.
     Inr (emit EVMOpcode_RETURN g))))))"

text \<open>The loop of the assembler over the functions, emitting each exposed body.\<close>

fun function_bodies_loop ::
    "ContractState \<Rightarrow> (string \<rightharpoonup> nat) \<Rightarrow> (string \<times> func_info) list \<Rightarrow> generator
       \<Rightarrow> error + generator" where
  "function_bodies_loop state placeholders [] g = Inr g"
| "function_bodies_loop state placeholders ((func_name, info) # rest) g =
     (if \<not> (is_public info \<or> is_view info) then function_bodies_loop state placeholders rest g
      else
        let func_start = get_offset g;
            g = (emit EVMOpcode_JUMPDEST g)\<lparr>current_state := Some state\<rparr>
        in
        bind_err (generate_function_body func_name info state g) (\<lambda>g.
        bind_err (case placeholders func_name of
                    Some p \<Rightarrow> backpatch p (int func_start) 2 g
                  | None \<Rightarrow> Inr g) (\<lambda>g.
        function_bodies_loop state placeholders rest g)))"

definition generate_enhanced_bytecode ::
    "hash \<Rightarrow> ContractState \<Rightarrow> generator \<Rightarrow> error + (byte list \<times> generator)" where
  "generate_enhanced_bytecode H state gen =
     (let g = set_mode ''runtime'' gen in
      bind_err (generate_function_dispatcher H (functions' state) g) (\<lambda>(placeholders, g).
      bind_err (function_bodies_loop state placeholders (functions' state) g) (\<lambda>g.
      let runtime_bytecode = runtime_code g;
          g = set_mode ''init'' g
      in
      bind_err (generate_constructor state (length runtime_bytecode) g) (\<lambda>g.
      Inr (init_code g @ runtime_code g, g)))))"

section \<open>Notions used to state what the generator emits\<close>

text \<open>
  The region the generator writes to (the test of \<^verbatim>\<open>emit\<close>: the init region in mode
  \<^verbatim>\<open>'init'\<close>, the runtime region otherwise), and the width \<^verbatim>\<open>emit_push\<close> chooses for an
  int when none is given.
\<close>

definition active_code :: "generator \<Rightarrow> byte list" where
  "active_code g = (if current_mode g = ''init'' then init_code g else runtime_code g)"

definition set_active_code :: "byte list \<Rightarrow> generator \<Rightarrow> generator" where
  "set_active_code bs g =
     (if current_mode g = ''init'' then g\<lparr>init_code := bs\<rparr> else g\<lparr>runtime_code := bs\<rparr>)"

definition append_code :: "byte list \<Rightarrow> generator \<Rightarrow> generator" where
  "append_code bs g = set_active_code (active_code g @ bs) g"

definition push_size :: "int \<Rightarrow> nat" where
  "push_size v = max 1 ((int_bit_length v + 7) div 8)"

text \<open>
  The bytes the dispatcher's loop appends for the exposed functions (eleven for each:
  DUP1, PUSH4 selector, EQ, PUSH2 0xDEAD, JUMPI), the offsets of the placeholders it
  records when the first entry starts at \<open>off\<close>, and the number of exposed functions.
\<close>

fun dispatch_entries :: "hash \<Rightarrow> (string \<times> func_info) list \<Rightarrow> byte list" where
  "dispatch_entries H [] = []"
| "dispatch_entries H ((func_name, info) # rest) =
     (if \<not> (is_public info \<or> is_view info) then dispatch_entries H rest
      else [0x80, 0x63] @
           be_bytes 4 (from_bytes (function_selector H
               (func_name @ ''('' @ join_str '','' (param_types info) @ '')''))) @
           [0x14, 0x61, 0xDE, 0xAD, 0x57] @ dispatch_entries H rest)"

fun dispatch_placeholders ::
    "(string \<times> func_info) list \<Rightarrow> nat \<Rightarrow> (string \<rightharpoonup> nat) \<Rightarrow> (string \<rightharpoonup> nat)" where
  "dispatch_placeholders [] off placeholders = placeholders"
| "dispatch_placeholders ((func_name, info) # rest) off placeholders =
     (if \<not> (is_public info \<or> is_view info) then dispatch_placeholders rest off placeholders
      else dispatch_placeholders rest (off + 11) (placeholders(func_name \<mapsto> off + 8)))"

fun count_exposed :: "(string \<times> func_info) list \<Rightarrow> nat" where
  "count_exposed [] = 0"
| "count_exposed ((func_name, info) # rest) =
     (if \<not> (is_public info \<or> is_view info) then count_exposed rest
      else Suc (count_exposed rest))"

text \<open>
  A function with the shape of keccak-256 (any bytes in, 32 bytes out) to instantiate
  the hash parameter at concrete inputs.
\<close>

definition sample_hash :: hash where
  "sample_hash bs = take 32 (rev bs @ replicate 32 0)"

text \<open>The bytes \<^verbatim>\<open>emit_push\<close> appends for an int that fits 32 bytes, when no width is given.\<close>

definition push_code :: "int \<Rightarrow> byte list" where
  "push_code v = of_nat (0x5F + push_size v) # be_bytes (push_size v) (nat v)"

text \<open>
  The bytes \<^verbatim>\<open>_compile_mapping_slot\<close> appends after the code of the key, for a base slot
  that fits 32 bytes: PUSH1 0, MSTORE, PUSH base, PUSH1 32, MSTORE, PUSH1 64, PUSH1 0, SHA3.
\<close>

definition mapping_slot_code :: "int \<Rightarrow> byte list" where
  "mapping_slot_code base_slot =
     [0x60, 0x00, 0x52] @ push_code base_slot @ [0x60, 0x20, 0x52, 0x60, 0x40, 0x60, 0x00, 0x20]"

section \<open>The target machine, for the opcodes the generator emits\<close>

text \<open>
  The generator's output is EVM code. The fragment below gives the EVM meaning of the
  opcodes of class EVMOpcode that the claims about emitted code run: words are 256 bits,
  the stack grows at the head of the list, memory is a byte array that reads as zero
  where nothing was written, and code or calldata read past their end read as zero.
  Gas, the stack limit of 1024 and memory expansion are left out. JUMP and JUMPI are
  not in the fragment: a run that reaches one, or any other opcode not listed, ends in
  \<open>Unsupported\<close>; a run that finds too few words on the stack ends in \<open>Underflow\<close>.
\<close>

type_synonym word256 = "256 word"

record machine =
  stack :: "word256 list"
  memory :: "nat \<Rightarrow> byte"
  storage :: "word256 \<Rightarrow> word256"
  calldata :: "byte list"

datatype outcome =
    Stopped machine
  | Returned "byte list" machine
  | Reverted "byte list"
  | Underflow
  | Unsupported

definition fresh_machine :: "byte list \<Rightarrow> machine" where
  "fresh_machine input =
     \<lparr>stack = [], memory = (\<lambda>a. 0), storage = (\<lambda>k. 0), calldata = input\<rparr>"

definition word_bytes :: "word256 \<Rightarrow> byte list" where
  "word_bytes w = be_bytes 32 (unat w)"

definition bytes_word :: "byte list \<Rightarrow> word256" where
  "bytes_word bs = of_nat (from_bytes bs)"

definition bool_word :: "bool \<Rightarrow> word256" where
  "bool_word b = (if b then 1 else 0)"

definition mem_read :: "(nat \<Rightarrow> byte) \<Rightarrow> nat \<Rightarrow> nat \<Rightarrow> byte list" where
  "mem_read mem off n = map mem [off ..< off + n]"

definition mem_write :: "(nat \<Rightarrow> byte) \<Rightarrow> nat \<Rightarrow> byte list \<Rightarrow> nat \<Rightarrow> byte" where
  "mem_write mem off bs = (\<lambda>a. if off \<le> a \<and> a < off + length bs then bs ! (a - off) else mem a)"

definition padded_slice :: "byte list \<Rightarrow> nat \<Rightarrow> nat \<Rightarrow> byte list" where
  "padded_slice bs off n = map (\<lambda>i. if i < length bs then bs ! i else 0) [off ..< off + n]"

definition binary_op :: "(word256 \<Rightarrow> word256 \<Rightarrow> word256) \<Rightarrow> machine \<Rightarrow> outcome + machine" where
  "binary_op f m =
     (case stack m of
        a # b # s \<Rightarrow> Inr (m\<lparr>stack := f a b # s\<rparr>)
      | _ \<Rightarrow> Inl Underflow)"

definition unary_op :: "(word256 \<Rightarrow> word256) \<Rightarrow> machine \<Rightarrow> outcome + machine" where
  "unary_op f m =
     (case stack m of
        a # s \<Rightarrow> Inr (m\<lparr>stack := f a # s\<rparr>)
      | _ \<Rightarrow> Inl Underflow)"

text \<open>One instruction other than a push or a halt; \<open>code\<close> is the whole code being run.\<close>

definition exec :: "hash \<Rightarrow> byte list \<Rightarrow> byte \<Rightarrow> machine \<Rightarrow> outcome + machine" where
  "exec H code op m =
     (if op = 0x01 then binary_op (\<lambda>a b. a + b) m
      else if op = 0x02 then binary_op (\<lambda>a b. a * b) m
      else if op = 0x03 then binary_op (\<lambda>a b. a - b) m
      else if op = 0x04 then binary_op (\<lambda>a b. if b = 0 then 0 else a div b) m
      else if op = 0x06 then binary_op (\<lambda>a b. if b = 0 then 0 else a mod b) m
      else if op = 0x10 then binary_op (\<lambda>a b. bool_word (a < b)) m
      else if op = 0x11 then binary_op (\<lambda>a b. bool_word (b < a)) m
      else if op = 0x14 then binary_op (\<lambda>a b. bool_word (a = b)) m
      else if op = 0x15 then unary_op (\<lambda>a. bool_word (a = 0)) m
      else if op = 0x1C then
        binary_op (\<lambda>shift v. if 256 \<le> unat shift then 0 else drop_bit (unat shift) v) m
      else if op = 0x20 then
        binary_op (\<lambda>off n. bytes_word (H (mem_read (memory m) (unat off) (unat n)))) m
      else if op = 0x35 then
        unary_op (\<lambda>off. bytes_word (padded_slice (calldata m) (unat off) 32)) m
      else if op = 0x36 then Inr (m\<lparr>stack := of_nat (length (calldata m)) # stack m\<rparr>)
      else if op = 0x39 then
        (case stack m of
           dest # src # n # s \<Rightarrow>
             Inr (m\<lparr>stack := s,
                    memory := mem_write (memory m) (unat dest)
                                (padded_slice code (unat src) (unat n))\<rparr>)
         | _ \<Rightarrow> Inl Underflow)
      else if op = 0x52 then
        (case stack m of
           off # v # s \<Rightarrow>
             Inr (m\<lparr>stack := s, memory := mem_write (memory m) (unat off) (word_bytes v)\<rparr>)
         | _ \<Rightarrow> Inl Underflow)
      else if op = 0x54 then unary_op (storage m) m
      else if op = 0x55 then
        (case stack m of
           k # v # s \<Rightarrow> Inr (m\<lparr>stack := s, storage := (storage m)(k := v)\<rparr>)
         | _ \<Rightarrow> Inl Underflow)
      else if op = 0x5B then Inr m
      else if 0x80 \<le> op \<and> op \<le> 0x8F then
        (let n = unat op - 0x7F in
         if n \<le> length (stack m) then Inr (m\<lparr>stack := stack m ! (n - 1) # stack m\<rparr>)
         else Inl Underflow)
      else if 0x90 \<le> op \<and> op \<le> 0x9F then
        (let n = unat op - 0x8F in
         if n < length (stack m)
         then Inr (m\<lparr>stack := (stack m)[0 := stack m ! n, n := stack m ! 0]\<rparr>)
         else Inl Underflow)
      else Inl Unsupported)"

text \<open>
  Running straight-line code from its first byte: a push takes its operand from the
  bytes that follow it, and the end of the code stops the run as STOP does.
\<close>

fun run :: "hash \<Rightarrow> byte list \<Rightarrow> byte list \<Rightarrow> machine \<Rightarrow> outcome" where
  "run H code [] m = Stopped m"
| "run H code (op # rest) m =
     (if op = 0x00 then Stopped m
      else if op = 0xF3 then
        (case stack m of
           off # n # s \<Rightarrow> Returned (mem_read (memory m) (unat off) (unat n)) (m\<lparr>stack := s\<rparr>)
         | _ \<Rightarrow> Underflow)
      else if op = 0xFD then
        (case stack m of
           off # n # s \<Rightarrow> Reverted (mem_read (memory m) (unat off) (unat n))
         | _ \<Rightarrow> Underflow)
      else if 0x60 \<le> op \<and> op \<le> 0x7F then
        (let n = unat op - 0x5F in
         run H code (drop n rest)
           (m\<lparr>stack := bytes_word (take n rest @ replicate (n - length rest) 0) # stack m\<rparr>))
      else
        (case exec H code op m of
           Inl halt \<Rightarrow> halt
         | Inr m' \<Rightarrow> run H code rest m'))"

text \<open>The deployment of an artifact: its code run from the start on an empty machine.\<close>

definition deploy :: "hash \<Rightarrow> byte list \<Rightarrow> outcome" where
  "deploy H artifact = run H artifact artifact (fresh_machine [])"

(*DEFS_END*)

section \<open>The storage layout assigns sequential slots\<close>

lemma layout_inv_new: "layout_inv [] new_layout"
  by (simp add: layout_inv_def new_layout_def)

lemma layout_inv_seen:
  assumes "layout_inv acc l" "v \<in> set acc"
  shows "snd (allocate v l) = l"
proof -
  from assms have "v \<in> dom (slots l)" by (simp add: layout_inv_def)
  then obtain s where "slots l v = Some s" by auto
  then show ?thesis by (simp add: allocate_def)
qed

lemma layout_inv_fresh:
  assumes "layout_inv acc l" "v \<notin> set acc"
  shows "layout_inv (acc @ [v]) (snd (allocate v l))"
proof -
  from assms have none: "slots l v = None" by (auto simp: layout_inv_def)
  have d: "distinct acc" and n: "next_slot l = int (length acc)"
    and dm: "dom (slots l) = set acc"
    and ix: "\<forall>i < length acc. slots l (acc ! i) = Some (int i)"
    using assms(1) by (simp_all add: layout_inv_def)
  have "\<forall>i < length (acc @ [v]).
          ((slots l)(v \<mapsto> next_slot l)) ((acc @ [v]) ! i) = Some (int i)"
  proof (intro allI impI)
    fix i assume i: "i < length (acc @ [v])"
    show "((slots l)(v \<mapsto> next_slot l)) ((acc @ [v]) ! i) = Some (int i)"
    proof (cases "i < length acc")
      case True
      then have "acc ! i \<in> set acc" by simp
      with assms(2) have "acc ! i \<noteq> v" by auto
      with True ix show ?thesis by (simp add: nth_append)
    next
      case False
      with i have "i = length acc" by simp
      then show ?thesis by (simp add: n)
    qed
  qed
  then show ?thesis
    using d n dm assms(2) none by (simp add: layout_inv_def allocate_def)
qed

lemma layout_inv_allocate_all:
  "layout_inv acc l \<Longrightarrow> layout_inv (first_seen acc vs) (allocate_all vs l)"
proof (induction vs arbitrary: acc l)
  case Nil
  then show ?case by simp
next
  case (Cons v vs)
  show ?case
  proof (cases "v \<in> set acc")
    case True
    with Cons.prems have "snd (allocate v l) = l" by (rule layout_inv_seen)
    with True Cons show ?thesis by simp
  next
    case False
    with Cons.prems have "layout_inv (acc @ [v]) (snd (allocate v l))"
      by (rule layout_inv_fresh)
    from Cons.IH [OF this] False show ?thesis by simp
  qed
qed

lemma first_seen_prefix: "\<exists>zs. first_seen acc vs = acc @ zs"
proof (induction vs arbitrary: acc)
  case Nil
  then show ?case by simp
next
  case (Cons v vs)
  show ?case
  proof (cases "v \<in> set acc")
    case True
    with Cons.IH [of acc] show ?thesis by simp
  next
    case False
    from Cons.IH [of "acc @ [v]"] obtain zs where "first_seen (acc @ [v]) vs = (acc @ [v]) @ zs"
      by blast
    with False show ?thesis by simp
  qed
qed

lemma layout_inv_inj:
  assumes "layout_inv acc l" "slots l a = Some s" "slots l b = Some s"
  shows "a = b"
proof -
  from assms have "a \<in> set acc" "b \<in> set acc" by (auto simp: layout_inv_def)
  then obtain i j where i: "i < length acc" "acc ! i = a" and j: "j < length acc" "acc ! j = b"
    by (auto simp: in_set_conv_nth)
  from assms(1) i j have "slots l a = Some (int i)" "slots l b = Some (int j)"
    by (auto simp: layout_inv_def)
  with assms(2,3) have "i = j" by simp
  with i j show ?thesis by simp
qed

lemma layout_inv_keep:
  assumes "layout_inv acc l" "slots l a = Some s"
  shows "slots (allocate_all vs l) a = Some s"
proof -
  from assms have "a \<in> set acc" by (auto simp: layout_inv_def)
  then obtain i where i: "i < length acc" "acc ! i = a" by (auto simp: in_set_conv_nth)
  with assms have s: "s = int i" by (auto simp: layout_inv_def)
  obtain zs where zs: "first_seen acc vs = acc @ zs" using first_seen_prefix by blast
  have "layout_inv (acc @ zs) (allocate_all vs l)"
    using layout_inv_allocate_all [OF assms(1), of vs] zs by simp
  then have "slots (allocate_all vs l) ((acc @ zs) ! i) = Some (int i)"
    using i(1) by (simp add: layout_inv_def)
  with i s show ?thesis by (simp add: nth_append)
qed

text \<open>
  Claim C5. Starting from the empty layout, after any sequence of allocations the
  \<open>n\<close>-th distinct first-seen name holds slot \<open>n\<close> (zero-indexed); allocating a name
  that has no slot yet returns the number of distinct names seen so far, records that
  slot for the name and advances the next free slot by one; allocating a name that
  already has a slot returns that slot and leaves the layout as it is; two names never
  share a slot, and a slot once given to a name stays with it through any further
  allocations.
\<close>

theorem allocate_sequential_slots:
  "(\<forall>n < length (first_seen [] vs).
      slots (allocate_all vs new_layout) (first_seen [] vs ! n) = Some (int n)) \<and>
   (\<forall>v. slots (allocate_all vs new_layout) v = None \<longrightarrow>
      allocate v (allocate_all vs new_layout) =
        (int (length (first_seen [] vs)),
         \<lparr>slots = (slots (allocate_all vs new_layout))(v \<mapsto> int (length (first_seen [] vs))),
          next_slot = int (length (first_seen [] vs)) + 1\<rparr>)) \<and>
   (\<forall>v s. slots (allocate_all vs new_layout) v = Some s \<longrightarrow>
      allocate v (allocate_all vs new_layout) = (s, allocate_all vs new_layout)) \<and>
   (\<forall>a b s. slots (allocate_all vs new_layout) a = Some s \<and>
      slots (allocate_all vs new_layout) b = Some s \<longrightarrow> a = b) \<and>
   (\<forall>a s ws. slots (allocate_all vs new_layout) a = Some s \<longrightarrow>
      slots (allocate_all ws (allocate_all vs new_layout)) a = Some s)"
proof -
  have inv: "layout_inv (first_seen [] vs) (allocate_all vs new_layout)"
    using layout_inv_allocate_all [OF layout_inv_new] .
  have one: "\<forall>n < length (first_seen [] vs).
      slots (allocate_all vs new_layout) (first_seen [] vs ! n) = Some (int n)"
    using inv by (simp add: layout_inv_def)
  have nxt: "next_slot (allocate_all vs new_layout) = int (length (first_seen [] vs))"
    using inv by (simp add: layout_inv_def)
  have fresh: "\<forall>v. slots (allocate_all vs new_layout) v = None \<longrightarrow>
      allocate v (allocate_all vs new_layout) =
        (int (length (first_seen [] vs)),
         \<lparr>slots = (slots (allocate_all vs new_layout))(v \<mapsto> int (length (first_seen [] vs))),
          next_slot = int (length (first_seen [] vs)) + 1\<rparr>)"
    by (simp add: allocate_def nxt)
  have two: "\<forall>v s. slots (allocate_all vs new_layout) v = Some s \<longrightarrow>
      allocate v (allocate_all vs new_layout) = (s, allocate_all vs new_layout)"
    by (simp add: allocate_def)
  have three: "\<forall>a b s. slots (allocate_all vs new_layout) a = Some s \<and>
      slots (allocate_all vs new_layout) b = Some s \<longrightarrow> a = b"
    using layout_inv_inj [OF inv] by blast
  have four: "\<forall>a s ws. slots (allocate_all vs new_layout) a = Some s \<longrightarrow>
      slots (allocate_all ws (allocate_all vs new_layout)) a = Some s"
    using layout_inv_keep [OF inv] by blast
  from one fresh two three four show ?thesis by blast
qed

theorem allocate_sequential_slots_witness:
  "first_seen [] [''count'', ''owner'', ''count'', ''total''] = [''count'', ''owner'', ''total''] \<and>
   slots (allocate_all [''count'', ''owner'', ''count'', ''total''] new_layout) ''total'' = Some 2 \<and>
   allocate ''owner'' (allocate_all [''count'', ''owner'', ''count'', ''total''] new_layout) =
     (1, allocate_all [''count'', ''owner'', ''count'', ''total''] new_layout) \<and>
   slots (allocate_all [''count'', ''owner'', ''count'', ''total''] new_layout) ''fee'' = None \<and>
   fst (allocate ''fee'' (allocate_all [''count'', ''owner'', ''count'', ''total''] new_layout)) = 3 \<and>
   next_slot (snd (allocate ''fee''
      (allocate_all [''count'', ''owner'', ''count'', ''total''] new_layout))) = 4"
proof -
  let ?vs = "[''count'', ''owner'', ''count'', ''total'']"
  have fs: "first_seen [] ?vs = [''count'', ''owner'', ''total'']" by simp
  have inst: "(\<forall>n < length (first_seen [] ?vs).
      slots (allocate_all ?vs new_layout) (first_seen [] ?vs ! n) = Some (int n)) \<and>
   (\<forall>v. slots (allocate_all ?vs new_layout) v = None \<longrightarrow>
      allocate v (allocate_all ?vs new_layout) =
        (int (length (first_seen [] ?vs)),
         \<lparr>slots = (slots (allocate_all ?vs new_layout))(v \<mapsto> int (length (first_seen [] ?vs))),
          next_slot = int (length (first_seen [] ?vs)) + 1\<rparr>)) \<and>
   (\<forall>v s. slots (allocate_all ?vs new_layout) v = Some s \<longrightarrow>
      allocate v (allocate_all ?vs new_layout) = (s, allocate_all ?vs new_layout))"
    using allocate_sequential_slots [of ?vs] by blast
  from inst have "2 < length (first_seen [] ?vs) \<longrightarrow>
      slots (allocate_all ?vs new_layout) (first_seen [] ?vs ! 2) = Some (int 2)"
    by blast
  then have a: "slots (allocate_all ?vs new_layout) ''total'' = Some 2"
    by (simp only: fs) simp
  from inst have "1 < length (first_seen [] ?vs) \<longrightarrow>
      slots (allocate_all ?vs new_layout) (first_seen [] ?vs ! 1) = Some (int 1)"
    by blast
  then have "slots (allocate_all ?vs new_layout) ''owner'' = Some 1"
    by (simp only: fs) simp
  with inst have b: "allocate ''owner'' (allocate_all ?vs new_layout) =
     (1, allocate_all ?vs new_layout)" by blast
  have none: "slots (allocate_all ?vs new_layout) ''fee'' = None"
    by (simp add: allocate_def new_layout_def)
  with inst have "allocate ''fee'' (allocate_all ?vs new_layout) =
        (int (length (first_seen [] ?vs)),
         \<lparr>slots = (slots (allocate_all ?vs new_layout))(''fee'' \<mapsto> int (length (first_seen [] ?vs))),
          next_slot = int (length (first_seen [] ?vs)) + 1\<rparr>)"
    by blast
  then have c: "fst (allocate ''fee'' (allocate_all ?vs new_layout)) = 3 \<and>
      next_slot (snd (allocate ''fee'' (allocate_all ?vs new_layout))) = 4"
    by (simp only: fs) simp
  from fs a b none c show ?thesis by blast
qed

section \<open>Big-endian encoding and the width chosen by emit\_push\<close>

lemma bit_length_upper: "n < 2 ^ bit_length n"
proof (induction n rule: bit_length.induct)
  case (1 n)
  show ?case
  proof (cases "n = 0")
    case True
    then show ?thesis by (simp add: bit_length.simps)
  next
    case False
    with 1 have "n div 2 < 2 ^ bit_length (n div 2)" by simp
    then have "n < 2 * 2 ^ bit_length (n div 2)" by linarith
    with False show ?thesis by (subst bit_length.simps) simp
  qed
qed

lemma bit_length_0 [simp]: "bit_length 0 = 0"
  by (simp add: bit_length.simps)

lemma bit_length_Suc_0 [simp]: "bit_length (Suc 0) = Suc 0"
  by (subst bit_length.simps) simp

lemma bit_length_lower: "n \<noteq> 0 \<Longrightarrow> 2 ^ (bit_length n - 1) \<le> n"
proof (induction n rule: bit_length.induct)
  case (1 n)
  show ?case
  proof (cases "n div 2 = 0")
    case True
    with 1(2) have "n = 1" by linarith
    then show ?thesis by simp
  next
    case False
    with 1 have ih: "2 ^ (bit_length (n div 2) - 1) \<le> n div 2" by simp
    from False have "bit_length (n div 2) \<noteq> 0" by (subst bit_length.simps) simp
    then obtain k where k: "bit_length (n div 2) = Suc k" by (cases "bit_length (n div 2)") auto
    from ih k have "2 * 2 ^ k \<le> n" by simp
    moreover have "bit_length n = Suc (Suc k)" using 1(2) k by (subst bit_length.simps) simp
    ultimately show ?thesis by simp
  qed
qed

lemma length_be_bytes [simp]: "length (be_bytes n v) = n"
  by (induction n arbitrary: v) auto

lemma from_bytes_snoc: "from_bytes (bs @ [b]) = from_bytes bs * 256 + unat b"
  by (simp add: from_bytes_def)

lemma from_bytes_be_bytes: "v < 256 ^ n \<Longrightarrow> from_bytes (be_bytes n v) = v"
proof (induction n arbitrary: v)
  case 0
  then show ?case by (simp add: from_bytes_def)
next
  case (Suc n)
  from Suc.prems have "v div 256 < 256 ^ n" by (simp add: less_mult_imp_div_less mult.commute)
  then have ih: "from_bytes (be_bytes n (v div 256)) = v div 256" by (rule Suc.IH)
  have "unat (of_nat (v mod 256) :: byte) = v mod 256"
    by (simp add: unat_of_nat)
  with ih show ?case by (simp add: from_bytes_snoc)
qed

lemma drop_be_bytes: "k \<le> n \<Longrightarrow> drop (n - k) (be_bytes n v) = be_bytes k (v mod 256 ^ k)"
proof (induction k arbitrary: n v)
  case 0
  then show ?case by simp
next
  case (Suc k)
  then obtain m where n: "n = Suc m" and km: "k \<le> m" by (cases n) auto
  have a: "(v mod (256 * 256 ^ k)) div 256 = (v div 256) mod 256 ^ k"
    by (simp add: mod_mult2_eq)
  have b: "(v mod (256 * 256 ^ k)) mod 256 = v mod 256"
    by (simp add: mod_mod_cancel)
  from km have "drop (m - k) (be_bytes m (v div 256)) = be_bytes k ((v div 256) mod 256 ^ k)"
    by (rule Suc.IH)
  then show ?case using km by (simp add: n a b)
qed

lemma push_size_fits: "0 \<le> v \<Longrightarrow> v < 256 ^ push_size v"
proof -
  assume v: "0 \<le> v"
  have "bit_length (nat v) \<le> 8 * push_size v" by (simp add: push_size_def int_bit_length_def v) 
  then have "(2::nat) ^ bit_length (nat v) \<le> 2 ^ (8 * push_size v)"
    by (simp add: power_increasing)
  with bit_length_upper [of "nat v"] have "nat v < 2 ^ (8 * push_size v)" by linarith
  then have "nat v < 256 ^ push_size v" by (simp add: power_mult)
  then have "int (nat v) < int (256 ^ push_size v)" by (simp only: of_nat_less_iff)
  with v show ?thesis by simp
qed

lemma push_size_minimal: "push_size v = 1 \<or> 256 ^ (push_size v - 1) \<le> \<bar>v\<bar>"
proof (cases "push_size v = 1")
  case True
  then show ?thesis by simp
next
  case False
  define m where "m = nat \<bar>v\<bar>"
  let ?b = "bit_length m"
  from False have ps: "push_size v = (?b + 7) div 8" and big: "2 \<le> (?b + 7) div 8"
    by (simp_all add: push_size_def int_bit_length_def m_def max_def split: if_splits)
  from big have b9: "9 \<le> ?b" by linarith
  have nz: "m \<noteq> 0"
  proof
    assume "m = 0"
    then have "bit_length m = 0" by simp
    with b9 show False by simp
  qed
  have "8 * ((?b + 7) div 8 - 1) \<le> ?b - 1" using b9 by linarith
  then have "(2::nat) ^ (8 * ((?b + 7) div 8 - 1)) \<le> 2 ^ (?b - 1)"
    by (simp add: power_increasing)
  also have "\<dots> \<le> m" by (rule bit_length_lower [OF nz])
  finally have "(2::nat) ^ (8 * (push_size v - 1)) \<le> m" by (simp add: ps)
  then have "(256::nat) ^ (push_size v - 1) \<le> m" by (simp add: power_mult)
  then have "int (256 ^ (push_size v - 1)) \<le> int m" by (simp only: of_nat_le_iff)
  then show ?thesis by (simp add: m_def)
qed

lemma push_size_pos: "1 \<le> push_size v"
  by (simp add: push_size_def)

lemma push_size_le_32: "0 \<le> v \<Longrightarrow> v < 2 ^ 256 \<Longrightarrow> push_size v \<le> 32"
proof (rule ccontr)
  assume v: "0 \<le> v" "v < 2 ^ 256" and "\<not> push_size v \<le> 32"
  then have "33 \<le> push_size v" by simp
  with push_size_minimal [of v] have "(256::int) ^ (push_size v - 1) \<le> \<bar>v\<bar>" by auto
  moreover have "(256::int) ^ 32 \<le> 256 ^ (push_size v - 1)"
    using \<open>33 \<le> push_size v\<close> by (intro power_increasing) auto
  ultimately show False using v by simp
qed

lemma push_size_ge_33: "2 ^ 256 \<le> v \<Longrightarrow> 33 \<le> push_size v"
proof (rule ccontr)
  assume v: "2 ^ 256 \<le> v" and "\<not> 33 \<le> push_size v"
  then have "push_size v \<le> 32" by simp
  then have "(256::int) ^ push_size v \<le> 256 ^ 32" by (intro power_increasing) auto
  moreover from v have "v < 256 ^ push_size v" by (intro push_size_fits) simp
  ultimately show False using v by simp
qed


section \<open>What emit\_push appends\<close>

lemma be_bytes_numeral:
  "be_bytes (numeral n) v = be_bytes (pred_numeral n) (v div 256) @ [of_nat (v mod 256)]"
proof -
  have "be_bytes (Suc (pred_numeral n)) v =
          be_bytes (pred_numeral n) (v div 256) @ [of_nat (v mod 256)]"
    by (rule be_bytes.simps)
  then show ?thesis by (simp only: numeral_eq_Suc [symmetric])
qed

lemma bit_length_numeral:
  "bit_length (numeral (Num.Bit0 n)) = Suc (bit_length (numeral n))"
  "bit_length (numeral (Num.Bit1 n)) = Suc (bit_length (numeral n))"
proof -
  have "numeral (Num.Bit0 n) div 2 = (numeral n :: nat)" by simp
  then show "bit_length (numeral (Num.Bit0 n)) = Suc (bit_length (numeral n))"
    by (subst bit_length.simps) simp
  have "numeral (Num.Bit1 n) div 2 = (numeral n :: nat)" by simp
  then show "bit_length (numeral (Num.Bit1 n)) = Suc (bit_length (numeral n))"
    by (subst bit_length.simps) simp
qed

lemma last_slice_all: "length xs = n \<Longrightarrow> last_slice n xs = xs"
  by (simp add: last_slice_def)

lemma emit_append: "emit opcode g = append_code [opcode] g"
  by (simp add: emit_def append_code_def set_active_code_def active_code_def)

lemma emit_push_int:
  assumes "0 \<le> v" "v < 256 ^ n"
  shows "emit_push (IntV v) (Some n) g =
     Inr ((append_code (of_nat (0x60 + min n 32 - 1) # last_slice (min n 32) (be_bytes n (nat v))) g)
            \<lparr>gas_used := gas_used g + 3\<rparr>)"
  using assms
  by (simp add: emit_push_def to_bytes_def Let_def append_code_def set_active_code_def
      active_code_def)

lemma push_size_fold: "max (Suc 0) ((int_bit_length v + 7) div 8) = push_size v"
  by (simp add: push_size_def)

lemma emit_push_auto_any:
  assumes "0 \<le> v"
  shows "emit_push (IntV v) None g =
     Inr ((append_code (of_nat (0x60 + min (push_size v) 32 - 1) #
             last_slice (min (push_size v) 32) (be_bytes (push_size v) (nat v))) g)
            \<lparr>gas_used := gas_used g + 3\<rparr>)"
proof -
  have "\<not> (v < 0 \<or> 256 ^ push_size v \<le> v)" using assms push_size_fits [OF assms] by simp
  then show ?thesis
    by (simp add: emit_push_def to_bytes_def Let_def append_code_def set_active_code_def
        active_code_def push_size_fold)
qed

lemma emit_push_auto:
  assumes "0 \<le> v" "v < 2 ^ 256"
  shows "emit_push (IntV v) None g =
     Inr ((append_code (of_nat (0x60 + push_size v - 1) # be_bytes (push_size v) (nat v)) g)
            \<lparr>gas_used := gas_used g + 3\<rparr>)"
proof -
  have "min (push_size v) 32 = push_size v" using push_size_le_32 [OF assms] by simp
  then show ?thesis by (simp add: emit_push_auto_any [OF assms(1)] last_slice_all)
qed

text \<open>
  Claim C4. For a value \<open>0 \<le> v < 2^256\<close>, \<^verbatim>\<open>emit_push\<close> without a width appends the push
  opcode \<open>0x60 + n - 1\<close> and \<open>n\<close> operand bytes, where \<open>n\<close> is the least width from 1 to 32
  that holds the value, charges 3 gas, and the operand read big-endian is the value.
\<close>

theorem emit_push_minimal_roundtrip:
  assumes "0 \<le> v" "v < 2 ^ 256"
  shows "\<exists>n operand.
     1 \<le> n \<and> n \<le> 32 \<and> length operand = n \<and> v < 256 ^ n \<and>
     (n = 1 \<or> 256 ^ (n - 1) \<le> v) \<and>
     emit_push (IntV v) None g =
       Inr ((append_code (of_nat (0x60 + n - 1) # operand) g)\<lparr>gas_used := gas_used g + 3\<rparr>) \<and>
     int (from_bytes operand) = v"
proof -
  let ?n = "push_size v"
  let ?operand = "be_bytes ?n (nat v)"
  have fits: "v < 256 ^ ?n" by (rule push_size_fits [OF assms(1)])
  then have "int (nat v) < int (256 ^ ?n)" using assms(1) by simp
  then have "nat v < 256 ^ ?n" by (simp only: of_nat_less_iff)
  then have "from_bytes ?operand = nat v" by (rule from_bytes_be_bytes)
  then have rt: "int (from_bytes ?operand) = v" using assms(1) by simp
  have minimal: "?n = 1 \<or> 256 ^ (?n - 1) \<le> v" using push_size_minimal [of v] assms(1) by simp
  have "1 \<le> ?n \<and> ?n \<le> 32 \<and> length ?operand = ?n \<and> v < 256 ^ ?n \<and>
     (?n = 1 \<or> 256 ^ (?n - 1) \<le> v) \<and>
     emit_push (IntV v) None g =
       Inr ((append_code (of_nat (0x60 + ?n - 1) # ?operand) g)\<lparr>gas_used := gas_used g + 3\<rparr>) \<and>
     int (from_bytes ?operand) = v"
    using push_size_pos [of v] push_size_le_32 [OF assms] fits minimal rt emit_push_auto [OF assms]
    by simp
  then show ?thesis by blast
qed

theorem emit_push_minimal_roundtrip_witness:
  "(0::int) \<le> 0 \<and> (0::int) < 2 ^ 256 \<and>
   emit_push (IntV 0) None new_generator =
     Inr (new_generator\<lparr>init_code := [0x60, 0x00], gas_used := 3\<rparr>) \<and>
   (\<exists>n operand.
     1 \<le> n \<and> n \<le> 32 \<and> length operand = n \<and> (0::int) < 256 ^ n \<and>
     (n = 1 \<or> 256 ^ (n - 1) \<le> (0::int)) \<and>
     emit_push (IntV 0) None new_generator =
       Inr ((append_code (of_nat (0x60 + n - 1) # operand) new_generator)
              \<lparr>gas_used := gas_used new_generator + 3\<rparr>) \<and>
     int (from_bytes operand) = 0)"
proof -
  have a: "emit_push (IntV 0) None new_generator =
     Inr (new_generator\<lparr>init_code := [0x60, 0x00], gas_used := 3\<rparr>)"
    by (simp add: emit_push_def to_bytes_def Let_def int_bit_length_def last_slice_def
        new_generator_def)
  show ?thesis using a emit_push_minimal_roundtrip [of 0 new_generator] by simp
qed

text \<open>
  Claim C10. For a value of \<open>2^256\<close> or more, \<^verbatim>\<open>emit_push\<close> without a width does not fail:
  it appends PUSH32 (\<open>0x7f\<close>) and the 32 bytes of the value reduced modulo \<open>2^256\<close>.
\<close>

theorem emit_push_truncates_oversized:
  assumes "2 ^ 256 \<le> v"
  shows "emit_push (IntV v) None g =
     Inr ((append_code (0x7f # be_bytes 32 (nat (v mod 2 ^ 256))) g)
            \<lparr>gas_used := gas_used g + 3\<rparr>)"
proof -
  have v0: "0 \<le> v" using assms by simp
  have big: "33 \<le> push_size v" by (rule push_size_ge_33 [OF assms])
  then have m: "min (push_size v) 32 = 32" by simp
  have "last_slice 32 (be_bytes (push_size v) (nat v)) =
          drop (push_size v - 32) (be_bytes (push_size v) (nat v))"
    using big by (simp add: last_slice_def)
  also have "\<dots> = be_bytes 32 (nat v mod 256 ^ 32)"
    using big by (intro drop_be_bytes) simp
  also have "nat v mod 256 ^ 32 = nat (v mod 2 ^ 256)"
    using v0 by (simp add: nat_mod_distrib)
  finally have ls: "last_slice 32 (be_bytes (push_size v) (nat v)) =
      be_bytes 32 (nat (v mod 2 ^ 256))" .
  show ?thesis by (simp add: emit_push_auto_any [OF v0] m ls)
qed

theorem emit_push_truncates_oversized_witness:
  "(2::int) ^ 256 \<le> 2 ^ 256 + 5 \<and>
   emit_push (IntV (2 ^ 256 + 5)) None new_generator =
     Inr ((append_code (0x7f # be_bytes 32 5) new_generator)\<lparr>gas_used := 3\<rparr>)"
  using emit_push_truncates_oversized [of "2 ^ 256 + 5" new_generator]
  by (simp add: new_generator_def)


section \<open>The code regions and what each emitter appends\<close>

lemma active_code_append [simp]: "active_code (append_code bs g) = active_code g @ bs"
  by (simp add: append_code_def set_active_code_def active_code_def)

lemma current_mode_append [simp]: "current_mode (append_code bs g) = current_mode g"
  by (simp add: append_code_def set_active_code_def)

lemma gas_used_append [simp]: "gas_used (append_code bs g) = gas_used g"
  by (simp add: append_code_def set_active_code_def)

lemma append_code_append [simp]: "append_code bs (append_code as g) = append_code (as @ bs) g"
  by (simp add: append_code_def set_active_code_def active_code_def)

lemma append_code_gas [simp]:
  "append_code bs (g\<lparr>gas_used := x\<rparr>) = (append_code bs g)\<lparr>gas_used := x\<rparr>"
  by (simp add: append_code_def set_active_code_def active_code_def)

lemma active_code_gas [simp]: "active_code (g\<lparr>gas_used := x\<rparr>) = active_code g"
  by (simp add: active_code_def)

lemma active_code_set_active [simp]: "active_code (set_active_code bs g) = bs"
  by (simp add: set_active_code_def active_code_def)

lemma current_mode_set_active [simp]: "current_mode (set_active_code bs g) = current_mode g"
  by (simp add: set_active_code_def)

lemma set_active_gas [simp]:
  "set_active_code bs (g\<lparr>gas_used := x\<rparr>) = (set_active_code bs g)\<lparr>gas_used := x\<rparr>"
  by (simp add: set_active_code_def)

lemma set_active_append [simp]: "set_active_code bs (append_code as g) = set_active_code bs g"
  by (simp add: append_code_def set_active_code_def)

lemma get_offset_runtime: "current_mode g = ''runtime'' \<Longrightarrow> get_offset g = length (active_code g)"
  by (simp add: get_offset_def active_code_def)

lemma runtime_code_active: "current_mode g = ''runtime'' \<Longrightarrow> runtime_code g = active_code g"
  by (simp add: active_code_def)

lemma push_consts:
  "emit_push (IntV 0) None g = Inr ((append_code [0x60, 0x00] g)\<lparr>gas_used := gas_used g + 3\<rparr>)"
  "emit_push (IntV 4) None g = Inr ((append_code [0x60, 0x04] g)\<lparr>gas_used := gas_used g + 3\<rparr>)"
  "emit_push (IntV 32) None g = Inr ((append_code [0x60, 0x20] g)\<lparr>gas_used := gas_used g + 3\<rparr>)"
  "emit_push (IntV 64) None g = Inr ((append_code [0x60, 0x40] g)\<lparr>gas_used := gas_used g + 3\<rparr>)"
  "emit_push (IntV 224) None g = Inr ((append_code [0x60, 0xE0] g)\<lparr>gas_used := gas_used g + 3\<rparr>)"
  "emit_push (IntV 0xFFFF) (Some 2) g =
     Inr ((append_code [0x61, 0xFF, 0xFF] g)\<lparr>gas_used := gas_used g + 3\<rparr>)"
  "emit_push (IntV 0xDEAD) (Some 2) g =
     Inr ((append_code [0x61, 0xDE, 0xAD] g)\<lparr>gas_used := gas_used g + 3\<rparr>)"
  "emit_push (IntV 0xBEEF) (Some 2) g =
     Inr ((append_code [0x61, 0xBE, 0xEF] g)\<lparr>gas_used := gas_used g + 3\<rparr>)"
  by (simp_all add: emit_push_def to_bytes_def Let_def int_bit_length_def bit_length_numeral
      be_bytes_numeral last_slice_def append_code_def set_active_code_def active_code_def)

lemma from_bytes_bound: "from_bytes bs < 256 ^ length bs"
proof (induction bs rule: rev_induct)
  case Nil
  then show ?case by (simp add: from_bytes_def)
next
  case (snoc b bs)
  have "unat b < 256" using unsigned_less [of b, where ?'a = nat] by simp
  with snoc have "from_bytes bs * 256 + unat b < (from_bytes bs + 1) * 256" by simp
  also have "\<dots> \<le> 256 ^ length bs * 256" using snoc by (intro mult_le_mono1) simp
  finally show ?case by (simp add: from_bytes_snoc)
qed

lemma selector_bound: "int (from_bytes (function_selector H s)) < 256 ^ 4"
proof -
  have "length (function_selector H s) \<le> 4" by (simp add: function_selector_def)
  then have "(256::nat) ^ length (function_selector H s) \<le> 256 ^ 4"
    by (intro power_increasing) auto
  with from_bytes_bound [of "function_selector H s"]
  have "from_bytes (function_selector H s) < 256 ^ 4" by linarith
  then have "int (from_bytes (function_selector H s)) < int (256 ^ 4)"
    by (simp only: of_nat_less_iff)
  then show ?thesis by simp
qed

lemma push_selector:
  "emit_push (IntV (int (from_bytes (function_selector H s)))) (Some 4) g =
     Inr ((append_code (0x63 # be_bytes 4 (from_bytes (function_selector H s))) g)
            \<lparr>gas_used := gas_used g + 3\<rparr>)"
  using emit_push_int [of "int (from_bytes (function_selector H s))" 4 g] selector_bound [of H s]
  by (simp add: last_slice_all)


lemma be_bytes_two:
  "be_bytes 2 t = [of_nat (t div 256 mod 256), of_nat (t mod 256)]"
  by (simp add: be_bytes_numeral)

lemma push_two:
  assumes "0 \<le> v" "v < 65536"
  shows "emit_push (IntV v) (Some 2) g =
     Inr ((append_code (0x61 # be_bytes 2 (nat v)) g)\<lparr>gas_used := gas_used g + 3\<rparr>)"
  using emit_push_int [of v 2 g] assms by (simp add: last_slice_all)

lemma push_two_overflow:
  assumes "65536 \<le> v"
  shows "emit_push (IntV v) (Some 2) g = Inl OverflowError"
  using assms by (simp add: emit_push_def to_bytes_def)

lemma backpatch_nat:
  "backpatch off (int n) 2 g =
     (if 65536 \<le> n then Inl OverflowError
      else Inr (set_active_code
                  (take off (active_code g) @ be_bytes 2 n @ drop (off + 2) (active_code g)) g))"
proof -
  have "(256 ^ 2 \<le> int n) = (65536 \<le> n)" by auto
  then show ?thesis
    by (simp add: backpatch_def to_bytes_def slice_assign_def set_active_code_def
        active_code_def)
qed

lemma length_dispatch_entries:
  "length (dispatch_entries H funcs) = 11 * count_exposed funcs"
  by (induction funcs) auto

lemma dispatcher_loop_exact:
  assumes "current_mode g = ''runtime''"
  shows "dispatcher_loop H funcs placeholders g =
      Inr (dispatch_placeholders funcs (length (runtime_code g)) placeholders,
           (append_code (dispatch_entries H funcs) g)
             \<lparr>gas_used := gas_used g + 6 * count_exposed funcs\<rparr>)"
  using assms
proof (induction funcs arbitrary: placeholders g)
  case Nil
  show ?case by (simp add: append_code_def set_active_code_def active_code_def)
next
  case (Cons f funcs)
  obtain func_name info where f: "f = (func_name, info)" by (cases f)
  show ?case
  proof (cases "is_public info \<or> is_view info")
    case False
    with Cons.IH [OF Cons.prems, of placeholders] f show ?thesis by simp
  next
    case True
    let ?sig = "func_name @ ''('' @ join_str '','' (param_types info) @ '')''"
    let ?entry = "[0x80, 0x63] @ be_bytes 4 (from_bytes (function_selector H ?sig)) @
                 [0x14, 0x61, 0xDE, 0xAD, 0x57]"
    let ?next = "(append_code ?entry g)\<lparr>gas_used := gas_used g + 3 + 3\<rparr>"
    let ?ph = "placeholders(func_name \<mapsto> length (runtime_code g) + 8)"
    have m: "current_mode ?next = ''runtime''" using Cons.prems by simp
    have len: "length (runtime_code ?next) = length (runtime_code g) + 11"
      using Cons.prems m by (simp add: runtime_code_active)
    have step: "dispatcher_loop H (f # funcs) placeholders g = dispatcher_loop H funcs ?ph ?next"
      using True f Cons.prems
      by (simp add: Let_def push_selector push_consts emit_append get_offset_runtime
          runtime_code_active ac_simps)
    show ?thesis
      unfolding step Cons.IH [OF m, of ?ph] len
      using True f by simp
  qed
qed

lemma dispatcher_exact:
  assumes mode: "current_mode g0 = ''runtime''"
  shows "generate_function_dispatcher H funcs g0 =
     (if 65536 \<le> length (runtime_code g0) + 14 + length (dispatch_entries H funcs)
      then Inl OverflowError
      else Inr (dispatch_placeholders funcs (length (runtime_code g0) + 14) Map.empty,
             (set_active_code
                (runtime_code g0 @ [0x60, 0x04, 0x36, 0x10, 0x61, 0xFF, 0xFF] @
                 be_bytes 2 (length (runtime_code g0) + 14 + length (dispatch_entries H funcs)) @
                 [0x00, 0x35, 0x60, 0xE0, 0x1C] @ dispatch_entries H funcs @
                 [0x5B, 0x60, 0x00, 0x60, 0x00, 0xFD]) g0)
               \<lparr>gas_used := gas_used g0 + 18 + 6 * count_exposed funcs\<rparr>))"
proof -
  let ?pre = "[0x60, 0x04, 0x36, 0x10, 0x61, 0xFF, 0xFF, 0x57, 0x60, 0x00, 0x35, 0x60, 0xE0, 0x1C] :: byte list"
  let ?n = "length (runtime_code g0) + 14 + length (dispatch_entries H funcs)"
  let ?all = "runtime_code g0 @ ?pre @ dispatch_entries H funcs @ [0x5B, 0x60, 0x00, 0x60, 0x00, 0xFD]"
  let ?g4 = "(append_code ?pre g0)\<lparr>gas_used := gas_used g0 + 3 + 3 + 3 + 3\<rparr>"
  let ?g7 = "(append_code (?pre @ dispatch_entries H funcs @ [0x5B, 0x60, 0x00, 0x60, 0x00, 0xFD]) g0)
               \<lparr>gas_used := gas_used g0 + 18 + 6 * count_exposed funcs\<rparr>"
  have m4: "current_mode ?g4 = ''runtime''" using mode by simp
  have l4: "length (runtime_code ?g4) = length (runtime_code g0) + 14"
    using mode m4 by (simp add: runtime_code_active)
  note loop = dispatcher_loop_exact [OF m4, of H funcs Map.empty, unfolded l4]
  have off: "get_offset (append_code [0x60, 0x04, 0x36, 0x10] g0\<lparr>gas_used := gas_used g0 + 3\<rparr>) + 3
               = length (runtime_code g0) + 7"
    using mode by (simp add: get_offset_runtime runtime_code_active [symmetric])
  have start: "get_offset ((append_code (dispatch_entries H funcs) ?g4)
        \<lparr>gas_used := gas_used ?g4 + 6 * count_exposed funcs\<rparr>) = ?n"
    using mode by (simp add: get_offset_runtime runtime_code_active [symmetric])
  have gfd: "generate_function_dispatcher H funcs g0 =
          bind_err (backpatch (length (runtime_code g0) + 7) (int ?n) 2 ?g7)
            (\<lambda>g. Inr (dispatch_placeholders funcs (length (runtime_code g0) + 14) Map.empty, g))"
    unfolding generate_function_dispatcher_def
    using loop mode
    by (simp add: push_consts emit_append Let_def get_offset_runtime runtime_code_active
        ac_simps)
  have ac: "active_code ?g7 = ?all"
    using mode by (simp add: runtime_code_active)
  have fin: "set_active_code (take (length (runtime_code g0) + 7) ?all @
                    be_bytes 2 ?n @ drop (length (runtime_code g0) + 7 + 2) ?all) ?g7 =
      (set_active_code
                (runtime_code g0 @ [0x60, 0x04, 0x36, 0x10, 0x61, 0xFF, 0xFF] @
                 be_bytes 2 ?n @
                 [0x00, 0x35, 0x60, 0xE0, 0x1C] @ dispatch_entries H funcs @
                 [0x5B, 0x60, 0x00, 0x60, 0x00, 0xFD]) g0)
               \<lparr>gas_used := gas_used g0 + 18 + 6 * count_exposed funcs\<rparr>"
    by simp
  show ?thesis
    unfolding gfd backpatch_nat ac fin by simp
qed

section \<open>Backpatching\<close>

lemma emit_push_two:
  assumes "emit_push (IntV p) (Some 2) g0 = Inr g1"
  shows "active_code g1 = active_code g0 @ [0x61] @ be_bytes 2 (nat p)"
    and "current_mode g1 = current_mode g0"
proof -
  have ok: "0 \<le> p \<and> p < 256 ^ 2"
    using assms by (auto simp add: emit_push_def to_bytes_def split: if_splits)
  then have "emit_push (IntV p) (Some 2) g0 =
     Inr ((append_code (0x61 # be_bytes 2 (nat p)) g0)\<lparr>gas_used := gas_used g0 + 3\<rparr>)"
    using emit_push_int [of p 2 g0] by (simp add: last_slice_all)
  with assms have g1: "g1 = (append_code (0x61 # be_bytes 2 (nat p)) g0)\<lparr>gas_used := gas_used g0 + 3\<rparr>"
    by simp
  show "active_code g1 = active_code g0 @ [0x61] @ be_bytes 2 (nat p)"
    unfolding g1 by simp
  show "current_mode g1 = current_mode g0"
    unfolding g1 by simp
qed




section \<open>Stages of the assembler\<close>

lemma append_code_state [simp]:
  "append_code bs (g\<lparr>current_state := c\<rparr>) = (append_code bs g)\<lparr>current_state := c\<rparr>"
  by (simp add: append_code_def set_active_code_def active_code_def)

lemma active_code_state [simp]: "active_code (g\<lparr>current_state := c\<rparr>) = active_code g"
  by (simp add: active_code_def)

lemma set_active_state [simp]:
  "set_active_code bs (g\<lparr>current_state := c\<rparr>) = (set_active_code bs g)\<lparr>current_state := c\<rparr>"
  by (simp add: set_active_code_def)

lemma set_active_set_active [simp]:
  "set_active_code bs (set_active_code as g) = set_active_code bs g"
  by (simp add: set_active_code_def)

lemma append_code_set_active [simp]:
  "append_code bs (set_active_code as g) = set_active_code (as @ bs) g"
  by (simp add: append_code_def)

lemma gas_used_set_active [simp]: "gas_used (set_active_code bs g) = gas_used g"
  by (simp add: set_active_code_def)

lemma abi_return_code:
  "generate_abi_encoded_return g =
     Inr ((append_code [0x60, 0x00, 0x52, 0x60, 0x20, 0x60, 0x00, 0xF3] g)
            \<lparr>gas_used := gas_used g + 9\<rparr>)"
  by (simp add: generate_abi_encoded_return_def push_consts emit_append)

lemma constructor_no_variables:
  assumes "variables state = []" and "current_mode g = ''init''"
    and "n < 65536" and "length (init_code g) + 13 < 65536"
  shows "generate_constructor state n g =
     Inr ((append_code ([0x61] @ be_bytes 2 n @ [0x61] @ be_bytes 2 (length (init_code g) + 13) @
             [0x81, 0x60, 0x00, 0x39, 0x60, 0x00, 0xF3]) g)\<lparr>gas_used := gas_used g + 12\<rparr>)"
proof -
  have a: "emit_push (IntV (int n)) (Some 2) g =
      Inr ((append_code (0x61 # be_bytes 2 n) g)\<lparr>gas_used := gas_used g + 3\<rparr>)"
    using push_two [of "int n" g] assms(3) by simp
  have nn: "nat (int (length (init_code g)) + 13) = length (init_code g) + 13"
    by linarith
  have b: "emit_push (IntV (int (length (init_code g)) + 13)) (Some 2) g' =
      Inr ((append_code (0x61 # be_bytes 2 (length (init_code g) + 13)) g')
             \<lparr>gas_used := gas_used g' + 3\<rparr>)" for g'
    using push_two [of "int (length (init_code g)) + 13" g'] assms(4) by (simp add: nn)
  show ?thesis
    unfolding generate_constructor_def assms(1) Let_def
    by (simp add: a b push_consts emit_append)
qed

section \<open>Constructs outside the grammar\<close>

lemma bind_err_assoc:
  "bind_err (bind_err m f) h = bind_err m (\<lambda>x. bind_err (f x) h)"
  by (cases m) simp_all

lemma compile_statements_append:
  "compile_statements arg_map state (xs @ ys) g =
     bind_err (compile_statements arg_map state xs g) (compile_statements arg_map state ys)"
proof (induction xs arbitrary: g)
  case Nil
  show ?case by simp
next
  case (Cons x xs)
  show ?case
    by (cases "compile_statement arg_map state x g") (simp_all add: Cons.IH)
qed

lemma compile_statements_skip:
  "compile_statements arg_map state (replicate k OtherStmt @ ss) g =
     compile_statements arg_map state ss g"
  by (induction k) simp_all

lemma body_of_unsupported:
  "generate_function_body func_name
      \<lparr>is_public = p, is_view = False, has_return = True, args = arg_names,
       param_types = types, return_type = rt,
       body = replicate k OtherStmt @ [Return (Some OtherExpr)]\<rparr> state g =
     Inr ((append_code [0x60, 0x00, 0x60, 0x00, 0x52, 0x60, 0x20, 0x60, 0x00, 0xF3] g)
            \<lparr>gas_used := gas_used g + 12\<rparr>)"
  by (simp add: generate_function_body_def compile_statements_skip push_consts abi_return_code)

lemma artifact_of_unsupported:
  "map_sum id fst
     (generate_enhanced_bytecode H
        \<lparr>variables = [],
         functions' = [(func_name,
            \<lparr>is_public = True, is_view = False, has_return = True, args = arg_names,
             param_types = types, return_type = rt,
             body = replicate k OtherStmt @ [Return (Some OtherExpr)]\<rparr>)],
         events = evs, initial_values = ivs, variable_types = vts\<rparr>
        new_generator) =
     Inr ([0x61, 0x00, 0x2A, 0x61, 0x00, 0x0D, 0x81, 0x60, 0x00, 0x39, 0x60, 0x00, 0xF3] @
          [0x60, 0x04, 0x36, 0x10, 0x61, 0xFF, 0xFF, 0x00, 0x19, 0x00, 0x35, 0x60, 0xE0, 0x1C] @
          [0x80, 0x63] @
          be_bytes 4 (from_bytes (function_selector H
             (func_name @ ''('' @ join_str '','' types @ '')''))) @
          [0x14, 0x61, 0x00, 0x1F, 0x57] @
          [0x5B, 0x60, 0x00, 0x60, 0x00, 0xFD] @
          [0x5B, 0x60, 0x00, 0x60, 0x00, 0x52, 0x60, 0x20, 0x60, 0x00, 0xF3])"
proof -
  let ?info = "\<lparr>is_public = True, is_view = False, has_return = True, args = arg_names,
             param_types = types, return_type = rt,
             body = replicate k OtherStmt @ [Return (Some OtherExpr)]\<rparr>"
  let ?state = "\<lparr>variables = [], functions' = [(func_name, ?info)],
         events = evs, initial_values = ivs, variable_types = vts\<rparr>"
  let ?sel = "be_bytes 4 (from_bytes (function_selector H
             (func_name @ ''('' @ join_str '','' types @ '')'')))"
  let ?start = "set_mode ''runtime'' new_generator"
  have m: "current_mode ?start = ''runtime''" by (simp add: set_mode_def)
  have r: "runtime_code ?start = []" by (simp add: set_mode_def new_generator_def)
  let ?d = "(set_active_code
              ([0x60, 0x04, 0x36, 0x10, 0x61, 0xFF, 0xFF, 0x00, 0x19, 0x00, 0x35, 0x60, 0xE0, 0x1C] @
               [0x80, 0x63] @ ?sel @ [0x14, 0x61, 0xDE, 0xAD, 0x57] @
               [0x5B, 0x60, 0x00, 0x60, 0x00, 0xFD]) ?start)\<lparr>gas_used := gas_used ?start + 18 + 6\<rparr>"
  have disp: "generate_function_dispatcher H [(func_name, ?info)] ?start =
      Inr ([func_name \<mapsto> 22], ?d)"
    unfolding dispatcher_exact [OF m] r
    by (simp add: be_bytes_two)
  have md: "current_mode ?d = ''runtime''" by (simp add: set_mode_def)
  let ?b = "(set_active_code
              ([0x60, 0x04, 0x36, 0x10, 0x61, 0xFF, 0xFF, 0x00, 0x19, 0x00, 0x35, 0x60, 0xE0, 0x1C] @
               [0x80, 0x63] @ ?sel @ [0x14, 0x61, 0x00, 0x1F, 0x57] @
               [0x5B, 0x60, 0x00, 0x60, 0x00, 0xFD] @
               [0x5B, 0x60, 0x00, 0x60, 0x00, 0x52, 0x60, 0x20, 0x60, 0x00, 0xF3]) ?start)
             \<lparr>current_state := Some ?state, gas_used := gas_used ?start + 18 + 6 + 12\<rparr>"
  have bodies: "function_bodies_loop ?state [func_name \<mapsto> 22] [(func_name, ?info)] ?d = Inr ?b"
    using md
    by (simp add: Let_def body_of_unsupported emit_append get_offset_runtime
        backpatch_nat [of _ 31, simplified] be_bytes_two)
  let ?i = "set_mode ''init'' ?b"
  have mi: "current_mode ?i = ''init''" by (simp add: set_mode_def)
  have ii: "init_code ?i = []"
    by (simp add: set_mode_def set_active_code_def new_generator_def)
  have ri: "runtime_code ?b =
              [0x60, 0x04, 0x36, 0x10, 0x61, 0xFF, 0xFF, 0x00, 0x19, 0x00, 0x35, 0x60, 0xE0, 0x1C] @
               [0x80, 0x63] @ ?sel @ [0x14, 0x61, 0x00, 0x1F, 0x57] @
               [0x5B, 0x60, 0x00, 0x60, 0x00, 0xFD] @
               [0x5B, 0x60, 0x00, 0x60, 0x00, 0x52, 0x60, 0x20, 0x60, 0x00, 0xF3]"
    by (simp add: set_mode_def set_active_code_def new_generator_def)
  have len: "length (runtime_code ?b) = 42" unfolding ri by simp
  have ctor: "generate_constructor ?state 42 ?i =
     Inr ((append_code ([0x61] @ be_bytes 2 42 @ [0x61] @ be_bytes 2 (length (init_code ?i) + 13) @
             [0x81, 0x60, 0x00, 0x39, 0x60, 0x00, 0xF3]) ?i)\<lparr>gas_used := gas_used ?i + 12\<rparr>)"
  proof -
    have v: "variables ?state = []" by simp
    have small: "(42::nat) < 65536" by simp
    have fits: "length (init_code ?i) + 13 < 65536" unfolding ii by simp
    show ?thesis by (rule constructor_no_variables [OF v mi small fits])
  qed
  show ?thesis
    unfolding generate_enhanced_bytecode_def
    apply (simp only: Let_def ContractState.simps disp bind_err_Inr prod.case bodies len ctor ii)
    apply (simp add: be_bytes_two set_mode_def set_active_code_def append_code_def
        active_code_def new_generator_def)
    done
qed



section \<open>The dispatcher's calldata-length guard\<close>




section \<open>Running emitted code\<close>

lemma run_le:
  "run H code ([0x90, 0x11, 0x15] @ rest) (m\<lparr>stack := vb # va # s\<rparr>) =
     run H code rest (m\<lparr>stack := (if va \<le> vb then 1 else 0) # s\<rparr>)"
  by (auto simp add: exec_def binary_op_def unary_op_def bool_word_def not_less)

lemma run_ge:
  "run H code ([0x90, 0x10, 0x15] @ rest) (m\<lparr>stack := vb # va # s\<rparr>) =
     run H code rest (m\<lparr>stack := (if vb \<le> va then 1 else 0) # s\<rparr>)"
  by (auto simp add: exec_def binary_op_def unary_op_def bool_word_def not_less)

lemma run_push:
  assumes "1 \<le> n" "n \<le> 32" "length bs = n"
  shows "run H code (of_nat (0x5F + n) # bs @ rest) m =
           run H code rest (m\<lparr>stack := bytes_word bs # stack m\<rparr>)"
proof -
  define op :: byte where "op = of_nat (0x5F + n)"
  have gen: "unat (of_nat k :: byte) = k mod 256" for k
    by (simp add: unat_of_nat)
  have "(0x5F + n) mod 256 = 0x5F + n" using assms by simp
  with gen [of "0x5F + n"] have u: "unat op = 0x5F + n"
    unfolding op_def by (simp only:)
  have lo: "0x60 \<le> op" using assms by (simp add: word_le_nat_alt u)
  have hi: "op \<le> 0x7F" using assms by (simp add: word_le_nat_alt u)
  have ne: "op \<noteq> 0x00" "op \<noteq> 0xF3" "op \<noteq> 0xFD"
    using lo hi by auto
  have "run H code (op # bs @ rest) m =
           run H code rest (m\<lparr>stack := bytes_word bs # stack m\<rparr>)"
    using lo hi ne u assms(3) by (simp add: Let_def)
  then show ?thesis unfolding op_def .
qed

lemma emit_push_code:
  assumes "0 \<le> v" "v < 2 ^ 256"
  shows "emit_push (IntV v) None g =
     Inr ((append_code (push_code v) g)\<lparr>gas_used := gas_used g + 3\<rparr>)"
proof -
  have "0x60 + push_size v - 1 = 0x5F + push_size v" by simp
  then show ?thesis
    using emit_push_auto [OF assms, of g] unfolding push_code_def by (simp only:)
qed

lemma run_push_code:
  assumes "0 \<le> v" "v < 2 ^ 256"
  shows "run H code (push_code v @ rest) m =
           run H code rest (m\<lparr>stack := word_of_int v # stack m\<rparr>)"
proof -
  have fit: "nat v < 256 ^ push_size v"
    using push_size_fits [OF assms(1)] assms(1)
    by (metis nat_less_iff of_nat_numeral of_nat_power)
  have "bytes_word (be_bytes (push_size v) (nat v)) = of_nat (nat v)"
    unfolding bytes_word_def by (simp add: from_bytes_be_bytes [OF fit])
  also have "\<dots> = word_of_int v" using assms(1) by simp
  finally have w: "bytes_word (be_bytes (push_size v) (nat v)) = word_of_int v" .
  show ?thesis
    unfolding push_code_def
    using run_push [OF push_size_pos push_size_le_32 [OF assms], of "be_bytes (push_size v) (nat v)"
        H code rest m]
    by (simp add: w)
qed

lemma word_of_int_le_256:
  assumes "0 \<le> x" "x < 2 ^ 256" "0 \<le> y" "y < 2 ^ 256"
  shows "((word_of_int x :: word256) \<le> word_of_int y) = (x \<le> y)"
proof -
  have "uint (word_of_int x :: word256) = x" "uint (word_of_int y :: word256) = y"
    using assms by (simp_all add: uint_word_of_int take_bit_int_eq_self)
  then show ?thesis by (simp add: word_le_def)
qed



section \<open>Mapping slots\<close>

lemma mem_read_two_words:
  assumes "length a = 32" "length b = 32"
  shows "mem_read (mem_write (mem_write mem 0 a) 32 b) 0 64 = a @ b"
proof (rule nth_equalityI)
  show "length (mem_read (mem_write (mem_write mem 0 a) 32 b) 0 64) = length (a @ b)"
    using assms by (simp add: mem_read_def)
next
  fix i assume "i < length (mem_read (mem_write (mem_write mem 0 a) 32 b) 0 64)"
  then have i: "i < 64" by (simp add: mem_read_def)
  then show "mem_read (mem_write (mem_write mem 0 a) 32 b) 0 64 ! i = (a @ b) ! i"
    using assms by (auto simp add: mem_read_def mem_write_def nth_append)
qed

lemma machine_update_order:
  "(m::machine)\<lparr>stack := a, memory := b\<rparr> = m\<lparr>memory := b, stack := a\<rparr>"
  by simp

lemma word_bytes_of_int:
  assumes "0 \<le> v" "v < 2 ^ 256"
  shows "word_bytes (word_of_int v) = be_bytes 32 (nat v)"
proof -
  have "uint (word_of_int v :: word256) = v"
    using assms by (simp add: uint_word_of_int take_bit_int_eq_self)
  then have "unat (word_of_int v :: word256) = nat v"
    by (simp add: unat_eq_nat_uint)
  then show ?thesis by (simp add: word_bytes_def)
qed

lemma length_word_bytes [simp]: "length (word_bytes w) = 32"
  by (simp add: word_bytes_def)

lemma compile_mapping_slot_code:
  assumes "0 \<le> base_slot" "base_slot < 2 ^ 256"
  shows "compile_mapping_slot arg_map state key base_slot g =
     bind_err (compile_expression arg_map state key g) (\<lambda>g.
       Inr ((append_code (mapping_slot_code base_slot) g)\<lparr>gas_used := gas_used g + 15\<rparr>))"
proof (cases "compile_expression arg_map state key g")
  case (Inl e)
  then show ?thesis by simp
next
  case (Inr gk)
  then show ?thesis
    by (simp add: push_consts emit_push_code [OF assms] emit_append mapping_slot_code_def)
qed

lemma run_mapping_slot_code:
  assumes "0 \<le> base_slot" "base_slot < 2 ^ 256"
  shows "run H code (mapping_slot_code base_slot @ rest) (m\<lparr>stack := k # s\<rparr>) =
     run H code rest
       (m\<lparr>stack := bytes_word (H (word_bytes k @ be_bytes 32 (nat base_slot))) # s,
          memory := mem_write (mem_write (memory m) 0 (word_bytes k)) 32
                      (be_bytes 32 (nat base_slot))\<rparr>)"
proof -
  have zero: "bytes_word [0x00] = 0" and w32: "bytes_word [0x20] = 32"
    and w64: "bytes_word [0x40] = 64"
    by (simp_all add: bytes_word_def from_bytes_def)
  have first: "run H code (mapping_slot_code base_slot @ rest) (m\<lparr>stack := k # s\<rparr>) =
      run H code (push_code base_slot @ [0x60, 0x20, 0x52, 0x60, 0x40, 0x60, 0x00, 0x20] @ rest)
        (m\<lparr>stack := s, memory := mem_write (memory m) 0 (word_bytes k)\<rparr>)"
    by (simp add: mapping_slot_code_def Let_def zero exec_def machine_update_order)
  have second: "run H code ([0x60, 0x20, 0x52, 0x60, 0x40, 0x60, 0x00, 0x20] @ rest)
        (m\<lparr>stack := word_of_int base_slot # s, memory := mem_write (memory m) 0 (word_bytes k)\<rparr>) =
      run H code rest
       (m\<lparr>stack := bytes_word (H (mem_read (mem_write (mem_write (memory m) 0 (word_bytes k)) 32
                      (be_bytes 32 (nat base_slot))) 0 64)) # s,
          memory := mem_write (mem_write (memory m) 0 (word_bytes k)) 32
                      (be_bytes 32 (nat base_slot))\<rparr>)"
    by (simp add: Let_def zero w32 w64 exec_def binary_op_def word_bytes_of_int [OF assms]
        machine_update_order)
  show ?thesis
    unfolding first run_push_code [OF assms]
    using second by (simp add: mem_read_two_words machine_update_order)
qed

lemma slot_agrees_with_reference:
  assumes "0 \<le> base_slot" "base_slot < 2 ^ 256" "length (H (word_bytes k @ be_bytes 32 (nat base_slot))) = 32"
  shows "calculate_mapping_slot H (IntV (uint k)) base_slot =
           Inr (from_bytes (H (word_bytes k @ be_bytes 32 (nat base_slot))))"
    and "unat (bytes_word (H (word_bytes k @ be_bytes 32 (nat base_slot)))) =
           from_bytes (H (word_bytes k @ be_bytes 32 (nat base_slot)))"
proof -
  have p: "(256::int) ^ 32 = 2 ^ 256" by simp
  have "uint k < 2 ^ 256" using uint_lt2p [of k] by simp
  then have "\<not> (uint k < 0 \<or> 256 ^ 32 \<le> uint k)" by (simp add: p)
  then have "to_bytes (uint k) 32 = Inr (be_bytes 32 (nat (uint k)))"
    unfolding to_bytes_def by (simp only: if_False)
  then have kb: "to_bytes (uint k) 32 = Inr (word_bytes k)"
    by (simp only: word_bytes_def nat_uint_eq)
  have "\<not> (base_slot < 0 \<or> 256 ^ 32 \<le> base_slot)" using assms(1,2) by (simp add: p)
  then have sb: "to_bytes base_slot 32 = Inr (be_bytes 32 (nat base_slot))"
    unfolding to_bytes_def by (simp only: if_False)
  show "calculate_mapping_slot H (IntV (uint k)) base_slot =
           Inr (from_bytes (H (word_bytes k @ be_bytes 32 (nat base_slot))))"
    by (simp add: calculate_mapping_slot_def kb sb)
  have q: "(256::nat) ^ 32 = 2 ^ 256" by simp
  have "from_bytes (H (word_bytes k @ be_bytes 32 (nat base_slot))) < 256 ^ 32"
    using from_bytes_bound [of "H (word_bytes k @ be_bytes 32 (nat base_slot))"]
    by (simp only: assms(3))
  then have "from_bytes (H (word_bytes k @ be_bytes 32 (nat base_slot))) < 2 ^ LENGTH(256)"
    by (simp only: q len_bit0 len_num1) simp
  then show "unat (bytes_word (H (word_bytes k @ be_bytes 32 (nat base_slot)))) =
           from_bytes (H (word_bytes k @ be_bytes 32 (nat base_slot)))"
    unfolding bytes_word_def by (simp only: unat_of_nat mod_less)
qed



end
